theory Spec2Isabelle
  imports Main
begin

text \<open>
  The quiz bot of \<open>bot.py\<close>: the generation of a problem with its fallback, the two
  stores and the handlers of \<open>/start\<close>, \<open>/problem\<close> and plain text messages. The chat
  transport and the completion service are outside: a handler takes the update it is
  called with, and the response of the service where it needs one, and returns the new
  stores with what it sent. Handlers run one at a time here; the \<open>await\<close> points at which
  the handlers of different updates could interleave are not modelled.
\<close>

section \<open>Text\<close>

text \<open>
  A Python \<open>str\<close> is a sequence of Unicode code points, so text is a list of code points
  here and \<open>length\<close> counts what Python's \<open>len\<close> counts. \<open>lit\<close> turns an ASCII literal
  into such a list; code points beyond ASCII are written as numbers.
\<close>

type_synonym pystr = "nat list"

definition lit :: "string \<Rightarrow> pystr" where
  "lit s = map of_char s"

text \<open>
  \<open>str.isspace\<close> for one code point: the code points that \<open>str.strip()\<close>, called with no
  argument, removes from both ends.
\<close>

definition py_isspace :: "nat \<Rightarrow> bool" where
  "py_isspace c \<longleftrightarrow>
     (9 \<le> c \<and> c \<le> 13) \<or> (28 \<le> c \<and> c \<le> 32) \<or> c = 133 \<or> c = 160 \<or> c = 5760 \<or>
     (8192 \<le> c \<and> c \<le> 8202) \<or> c = 8232 \<or> c = 8233 \<or> c = 8239 \<or> c = 8287 \<or> c = 12288"

definition py_strip :: "pystr \<Rightarrow> pystr" where
  "py_strip s = rev (dropWhile py_isspace (rev (dropWhile py_isspace s)))"

text \<open>
  \<open>str.upper()\<close> replaces every code point by its upper-case form, which for some code
  points is more than one code point (U+00DF becomes SS). For ASCII the form is written
  out here: the letters a to z go to A to Z and the rest stays. For the code points
  beyond ASCII the form comes from the Unicode database that the interpreter carries,
  which differs between versions of Python; that part of the table is the parameter \<open>up\<close>.
\<close>

definition upper_cp :: "nat \<Rightarrow> nat" where
  "upper_cp c = (if 97 \<le> c \<and> c \<le> 122 then c - 32 else c)"

definition upper_full :: "(nat \<Rightarrow> pystr) \<Rightarrow> nat \<Rightarrow> pystr" where
  "upper_full up c = (if c < 128 then [upper_cp c] else up c)"

definition py_upper :: "(nat \<Rightarrow> pystr) \<Rightarrow> pystr \<Rightarrow> pystr" where
  "py_upper up s = concat (map (upper_full up) s)"

text \<open>
  \<open>s.replace(old, new)\<close>: the occurrences of \<open>old\<close> are found from the left and do not
  overlap. With an empty \<open>old\<close>, Python puts \<open>new\<close> before every code point and at the end.
\<close>

fun replace_from :: "pystr \<Rightarrow> pystr \<Rightarrow> pystr \<Rightarrow> pystr" where
  "replace_from old new [] = []"
| "replace_from old new (c # cs) =
     (if old \<noteq> [] \<and> take (length old) (c # cs) = old
      then new @ replace_from old new (drop (length old) (c # cs))
      else c # replace_from old new cs)"

definition py_replace :: "pystr \<Rightarrow> pystr \<Rightarrow> pystr \<Rightarrow> pystr" where
  "py_replace old new s =
     (if old = [] then new @ concat (map (\<lambda>c. c # new) s) else replace_from old new s)"

text \<open>\<open>sub in s\<close> for two strings: \<open>sub\<close> occurs in \<open>s\<close> as a contiguous run.\<close>

fun py_contains :: "pystr \<Rightarrow> pystr \<Rightarrow> bool" where
  "py_contains sub [] = (sub = [])"
| "py_contains sub (c # cs) = (take (length sub) (c # cs) = sub \<or> py_contains sub cs)"

text \<open>\<open>str(n)\<close> for an integer: its decimal digits, with a minus sign when negative.\<close>

fun dec_digits :: "nat \<Rightarrow> pystr" where
  "dec_digits n = (if n < 10 then [48 + n] else dec_digits (n div 10) @ [48 + n mod 10])"

declare dec_digits.simps [simp del]

definition str_int :: "int \<Rightarrow> pystr" where
  "str_int i = (if i < 0 then 45 # dec_digits (nat (- i)) else dec_digits (nat i))"


section \<open>JSON values and \<open>json.loads\<close>\<close>

text \<open>
  What \<open>json.loads\<close> returns: \<open>None\<close>, a \<open>bool\<close>, an \<open>int\<close>, a \<open>float\<close>, a \<open>str\<close>, a
  \<open>list\<close> or a \<open>dict\<close> with string keys. A \<open>dict\<close> is the list of its entries in insertion
  order, with no key twice. Nothing in the bot computes with a \<open>float\<close>, so a float is kept
  as the text it was written with (\<open>NaN\<close>, \<open>Infinity\<close> and \<open>-Infinity\<close> included).
\<close>

datatype json =
    JNull
  | JBool bool
  | JInt int
  | JFloat pystr
  | JStr pystr
  | JArr "json list"
  | JObj "(pystr \<times> json) list"

text \<open>\<open>d[k] = v\<close> on a \<open>dict\<close>: an existing key keeps its place and takes the new value.\<close>

fun dict_set :: "(pystr \<times> json) list \<Rightarrow> pystr \<Rightarrow> json \<Rightarrow> (pystr \<times> json) list" where
  "dict_set [] k v = [(k, v)]"
| "dict_set ((k', v') # r) k v = (if k' = k then (k, v) # r else (k', v') # dict_set r k v)"

definition is_json_ws :: "nat \<Rightarrow> bool" where
  "is_json_ws c \<longleftrightarrow> c = 32 \<or> c = 9 \<or> c = 10 \<or> c = 13"

definition skip_ws :: "pystr \<Rightarrow> pystr" where
  "skip_ws s = dropWhile is_json_ws s"

definition is_digit :: "nat \<Rightarrow> bool" where
  "is_digit c \<longleftrightarrow> 48 \<le> c \<and> c \<le> 57"

definition hexval :: "nat \<Rightarrow> nat option" where
  "hexval c =
     (if 48 \<le> c \<and> c \<le> 57 then Some (c - 48)
      else if 97 \<le> c \<and> c \<le> 102 then Some (c - 87)
      else if 65 \<le> c \<and> c \<le> 70 then Some (c - 55)
      else None)"

text \<open>Four hexadecimal digits, as after \<open>\u\<close> in a string.\<close>

definition hex4 :: "pystr \<Rightarrow> (nat \<times> pystr) option" where
  "hex4 s =
     (if length s < 4 then None
      else (case (hexval (s ! 0), hexval (s ! 1), hexval (s ! 2), hexval (s ! 3)) of
              (Some a, Some b, Some c, Some d) \<Rightarrow>
                Some (((a * 16 + b) * 16 + c) * 16 + d, drop 4 s)
            | _ \<Rightarrow> None))"

text \<open>
  The escape \<open>\uXXXX\<close>, read from just after the \<open>u\<close>. A high surrogate followed by an
  escaped low surrogate is one code point; a surrogate alone is kept as it is.
\<close>

definition decode_u :: "pystr \<Rightarrow> (nat \<times> pystr) option" where
  "decode_u s =
     (case hex4 s of
        None \<Rightarrow> None
      | Some (uni, r) \<Rightarrow>
          if 55296 \<le> uni \<and> uni \<le> 56319 \<and> take 2 r = [92, 117]
          then (case hex4 (drop 2 r) of
                  None \<Rightarrow> None
                | Some (uni2, r2) \<Rightarrow>
                    if 56320 \<le> uni2 \<and> uni2 \<le> 57343
                    then Some (65536 + ((uni - 55296) * 1024 + (uni2 - 56320)), r2)
                    else Some (uni, r))
          else Some (uni, r))"

text \<open>The one-letter escapes: quote, backslash, slash, b, f, n, r, t.\<close>

definition backslash :: "nat \<Rightarrow> nat option" where
  "backslash e =
     (if e = 34 then Some 34 else if e = 92 then Some 92 else if e = 47 then Some 47
      else if e = 98 then Some 8 else if e = 102 then Some 12 else if e = 110 then Some 10
      else if e = 114 then Some 13 else if e = 116 then Some 9 else None)"

lemma hex4_shorter: "hex4 s = Some (n, r) \<Longrightarrow> length r < length s"
  by (auto simp: hex4_def split: if_splits option.splits)

lemma decode_u_shorter: "decode_u s = Some (n, r) \<Longrightarrow> length r < length s"
  by (fastforce simp: decode_u_def split: option.splits if_splits dest: hex4_shorter)

text \<open>
  The body of a string, read from just after the opening quote (code point 34) up to the
  closing one. A backslash (92) starts an escape; a control character below 32 is an
  error, as is the end of the text.
\<close>

function scanstring :: "pystr \<Rightarrow> (pystr \<times> pystr) option" where
  "scanstring [] = None"
| "scanstring (c # r) =
     (if c = 34 then Some ([], r)
      else if c = 92 then
        (case r of
           [] \<Rightarrow> None
         | e # r' \<Rightarrow>
             if e = 117 then
               (case decode_u r' of
                  None \<Rightarrow> None
                | Some (u, r'') \<Rightarrow> map_option (\<lambda>(x, t). (u # x, t)) (scanstring r''))
             else
               (case backslash e of
                  None \<Rightarrow> None
                | Some u \<Rightarrow> map_option (\<lambda>(x, t). (u # x, t)) (scanstring r')))
      else if c < 32 then None
      else map_option (\<lambda>(x, t). (c # x, t)) (scanstring r))"
  by pat_completeness auto

termination
  by (relation "measure length") (auto dest: decode_u_shorter)

text \<open>
  A number, as the scanner of \<open>json\<close> matches it: an optional minus sign (45), then 0 or a
  digit from 1 to 9 with more digits, then an optional fraction (a point, 46, and at
  least one digit) and an optional exponent (e or E, an optional sign, at least one digit).
  With neither fraction nor exponent the number is an \<open>int\<close>, otherwise a \<open>float\<close>. Python
  refuses to convert an integer literal of more than 4300 digits.
\<close>

definition int_of_digits :: "pystr \<Rightarrow> int" where
  "int_of_digits ds = foldl (\<lambda>a d. a * 10 + (int d - 48)) 0 ds"

definition scan_exponent :: "pystr \<Rightarrow> pystr \<times> pystr" where
  "scan_exponent s =
     (case s of
        [] \<Rightarrow> ([], s)
      | e # r \<Rightarrow>
          if e = 101 \<or> e = 69 then
            (let sg = (if r \<noteq> [] \<and> (hd r = 45 \<or> hd r = 43) then [hd r] else []);
                 r1 = drop (length sg) r;
                 ds = takeWhile is_digit r1
             in if ds = [] then ([], s) else (e # sg @ ds, dropWhile is_digit r1))
          else ([], s))"

definition scan_fraction :: "pystr \<Rightarrow> pystr \<times> pystr" where
  "scan_fraction s =
     (case s of
        p # d # r \<Rightarrow>
          if p = 46 \<and> is_digit d then (p # d # takeWhile is_digit r, dropWhile is_digit r)
          else ([], s)
      | _ \<Rightarrow> ([], s))"

definition match_number :: "pystr \<Rightarrow> (json \<times> pystr) option" where
  "match_number s =
     (let sg = (if s \<noteq> [] \<and> hd s = 45 then [45] else []);
          s1 = drop (length sg) s
      in case s1 of
           [] \<Rightarrow> None
         | c # r \<Rightarrow>
             if \<not> is_digit c then None
             else
               (let ip = (if c = 48 then [c] else c # takeWhile is_digit r);
                    s2 = drop (length ip) s1;
                    (fp, s3) = scan_fraction s2;
                    (ep, s4) = scan_exponent s3
                in if fp = [] \<and> ep = []
                   then (if 4300 < length ip then None
                         else Some (JInt (if sg = [] then int_of_digits ip
                                          else - int_of_digits ip), s4))
                   else Some (JFloat (sg @ ip @ fp @ ep), s4)))"

lemma skip_ws_le: "length (skip_ws s) \<le> length s"
  by (simp add: skip_ws_def length_dropWhile_le)

lemma skip_ws_Cons_shorter: "skip_ws s = c # r \<Longrightarrow> length r < length s"
  using skip_ws_le [of s] by simp

lemma scanstring_shorter: "scanstring s = Some (x, r) \<Longrightarrow> length r < length s"
proof (induction s arbitrary: x r rule: scanstring.induct)
  case 1
  then show ?case by simp
next
  case (2 c r0)
  then show ?case
    by (fastforce split: if_splits list.splits option.splits dest: decode_u_shorter)
qed

text \<open>
  The recursive descent of \<open>json\<close>. \<open>scan_once\<close> reads one value from the head of the
  text and returns it with the text that is left. \<open>parse_object\<close> reads the entries of an
  object from just after the opening quote of a key, \<open>parse_array\<close> the elements of an
  array from the start of an element. The code points are 34 for the quote, 123 and 125
  for braces, 91 and 93 for brackets, 58 for the colon and 44 for the comma. The
  comparison of lengths after a nested value is there for the termination proof only;
  it never fails (\<open>parse_object_unguarded\<close> and \<open>parse_array_unguarded\<close> below).
\<close>

function scan_once :: "pystr \<Rightarrow> (json \<times> pystr) option"
  and parse_object :: "(pystr \<times> json) list \<Rightarrow> pystr \<Rightarrow> (json \<times> pystr) option"
  and parse_array :: "json list \<Rightarrow> pystr \<Rightarrow> (json \<times> pystr) option"
where
  "scan_once s =
     (case s of
        [] \<Rightarrow> None
      | c # r \<Rightarrow>
          if c = 34 then map_option (\<lambda>(x, t). (JStr x, t)) (scanstring r)
          else if c = 123 then
            (case skip_ws r of
               [] \<Rightarrow> None
             | d # r1 \<Rightarrow>
                 if d = 125 then Some (JObj [], r1)
                 else if d = 34 then parse_object [] r1
                 else None)
          else if c = 91 then
            (case skip_ws r of
               [] \<Rightarrow> None
             | d # r1 \<Rightarrow>
                 if d = 93 then Some (JArr [], r1)
                 else parse_array [] (d # r1))
          else if take 4 s = lit ''null'' then Some (JNull, drop 4 s)
          else if take 4 s = lit ''true'' then Some (JBool True, drop 4 s)
          else if take 5 s = lit ''false'' then Some (JBool False, drop 5 s)
          else
            (case match_number s of
               Some res \<Rightarrow> Some res
             | None \<Rightarrow>
                 if take 3 s = lit ''NaN'' then Some (JFloat (lit ''NaN''), drop 3 s)
                 else if take 8 s = lit ''Infinity''
                   then Some (JFloat (lit ''Infinity''), drop 8 s)
                 else if take 9 s = lit ''-Infinity''
                   then Some (JFloat (lit ''-Infinity''), drop 9 s)
                 else None))"
| "parse_object acc s =
     (case scanstring s of
        None \<Rightarrow> None
      | Some (k, r1) \<Rightarrow>
          (case skip_ws r1 of
             [] \<Rightarrow> None
           | c # r2 \<Rightarrow>
               if c \<noteq> 58 then None
               else
                 (case scan_once (skip_ws r2) of
                    None \<Rightarrow> None
                  | Some (v, r3) \<Rightarrow>
                      if length s \<le> length r3 then None
                      else
                        (case skip_ws r3 of
                           [] \<Rightarrow> None
                         | d # r4 \<Rightarrow>
                             if d = 125 then Some (JObj (dict_set acc k v), r4)
                             else if d \<noteq> 44 then None
                             else
                               (case skip_ws r4 of
                                  [] \<Rightarrow> None
                                | e # r5 \<Rightarrow>
                                    if e = 34 then parse_object (dict_set acc k v) r5
                                    else None)))))"
| "parse_array acc s =
     (case scan_once s of
        None \<Rightarrow> None
      | Some (v, r1) \<Rightarrow>
          if length s \<le> length r1 then None
          else
            (case skip_ws r1 of
               [] \<Rightarrow> None
             | d # r2 \<Rightarrow>
                 if d = 93 then Some (JArr (acc @ [v]), r2)
                 else if d \<noteq> 44 then None
                 else parse_array (acc @ [v]) (skip_ws r2)))"
  by pat_completeness auto

termination
proof (relation "measures [\<lambda>x. case x of Inl s \<Rightarrow> length s
                                       | Inr (Inl (a, s)) \<Rightarrow> length s
                                       | Inr (Inr (a, s)) \<Rightarrow> length s,
                           \<lambda>x. case x of Inl s \<Rightarrow> 0 | Inr y \<Rightarrow> Suc 0]",
       goal_cases)
  case 1
  show ?case by simp
next
  case (2 s c r d r1)
  then show ?case by (auto dest: skip_ws_Cons_shorter)
next
  case (3 s c r d r1)
  then show ?case using skip_ws_le [of r] by auto
next
  case (4 acc s x k r1 c r2)
  then show ?case
    using skip_ws_le [of r2] by (auto dest!: scanstring_shorter skip_ws_Cons_shorter)
next
  case (5 acc s x k r1 c r2 y v r3 d r4 e r5)
  then show ?case
    using skip_ws_le [of r4] by (auto dest!: skip_ws_Cons_shorter)
next
  case (6 acc s)
  show ?case by simp
next
  case (7 acc s x v r1 d r2)
  then show ?case
    using skip_ws_le [of r2] by (auto dest!: skip_ws_Cons_shorter)
qed

declare scan_once.simps [simp del] parse_object.simps [simp del] parse_array.simps [simp del]


text \<open>
  A value that was read leaves less text than it was given. So the comparisons of lengths
  in \<open>parse_object\<close> and \<open>parse_array\<close> never fail, and the two functions satisfy the
  equations without them.
\<close>

lemma scan_fraction_le: "scan_fraction s = (fp, r) \<Longrightarrow> length r \<le> length s"
  by (auto simp: scan_fraction_def split: list.splits if_splits
           intro: le_trans [OF length_dropWhile_le])

lemma scan_exponent_le: "scan_exponent s = (ep, r) \<Longrightarrow> length r \<le> length s"
  by (auto simp: scan_exponent_def Let_def split: list.splits if_splits
           intro!: le_trans [OF length_dropWhile_le])

lemma match_number_shorter:
  assumes "match_number s = Some (v, r)"
  shows "length r < length s"
  using assms
  by (cases s)
     (auto simp: match_number_def Let_def split: list.splits if_splits prod.splits
           dest!: scan_fraction_le scan_exponent_le)

lemma scan_shorter:
  "(\<forall>v r. scan_once s = Some (v, r) \<longrightarrow> length r < length s)"
  "(\<forall>v r. parse_object acc s = Some (v, r) \<longrightarrow> length r < length s)"
  "(\<forall>v r. parse_array acc' s' = Some (v, r) \<longrightarrow> length r < length s')"
proof (induction s and acc s and acc' s' rule: scan_once_parse_object_parse_array.induct)
  case (1 s)
  show ?case
  proof (intro allI impI)
    fix v r
    assume a: "scan_once s = Some (v, r)"
    then obtain c r0 where s: "s = c # r0"
      by (cases s) (simp_all add: scan_once.simps)
    consider (str) "c = 34" | (obj) "c \<noteq> 34" "c = 123" | (arr) "c \<noteq> 34" "c \<noteq> 123" "c = 91"
      | (atom) "c \<noteq> 34" "c \<noteq> 123" "c \<noteq> 91"
      by blast
    then show "length r < length s"
    proof cases
      case str
      with a s show ?thesis
        by (auto simp: scan_once.simps dest: scanstring_shorter)
    next
      case obj
      with a s obtain d r1 where sk: "skip_ws r0 = d # r1"
        by (cases "skip_ws r0") (simp_all add: scan_once.simps)
      then have l: "length r1 < length r0" by (rule skip_ws_Cons_shorter)
      show ?thesis
      proof (cases "d = 125")
        case True
        with a s obj sk l show ?thesis by (simp add: scan_once.simps)
      next
        case False
        with a s obj sk have d: "d = 34" and p: "parse_object [] r1 = Some (v, r)"
          by (simp_all add: scan_once.simps split: if_splits)
        from "1.IH"(1) [OF s obj sk False d] p have "length r < length r1" by blast
        with l s show ?thesis by simp
      qed
    next
      case arr
      with a s obtain d r1 where sk: "skip_ws r0 = d # r1"
        by (cases "skip_ws r0") (simp_all add: scan_once.simps)
      then have l: "length r1 < length r0" by (rule skip_ws_Cons_shorter)
      show ?thesis
      proof (cases "d = 93")
        case True
        with a s arr sk l show ?thesis by (simp add: scan_once.simps)
      next
        case False
        with a s arr sk have p: "parse_array [] (d # r1) = Some (v, r)"
          by (simp add: scan_once.simps)
        from "1.IH"(2) [OF s arr sk False] p have "length r < length (d # r1)" by blast
        with l s show ?thesis by simp
      qed
    next
      case atom
      with a s show ?thesis
        by (auto simp: scan_once.simps split: if_splits option.splits
                 dest: match_number_shorter)
    qed
  qed
next
  case (2 acc s)
  show ?case
  proof (intro allI impI)
    fix v r
    assume a: "parse_object acc s = Some (v, r)"
    then obtain k r1 where k: "scanstring s = Some (k, r1)"
      by (cases "scanstring s") (auto simp: parse_object.simps)
    then have l1: "length r1 < length s" by (rule scanstring_shorter)
    from a k obtain c r2 where sk1: "skip_ws r1 = c # r2"
      by (cases "skip_ws r1") (simp_all add: parse_object.simps split: if_splits)
    from a k sk1 have c: "\<not> c \<noteq> 58"
      by (auto simp: parse_object.simps split: if_splits)
    from a k sk1 c obtain w r3 where w: "scan_once (skip_ws r2) = Some (w, r3)"
      by (cases "scan_once (skip_ws r2)") (auto simp: parse_object.simps)
    from a k sk1 c w have g: "\<not> length s \<le> length r3"
      by (auto simp: parse_object.simps split: if_splits)
    from a k sk1 c w g obtain d r4 where sk3: "skip_ws r3 = d # r4"
      by (cases "skip_ws r3") (simp_all add: parse_object.simps split: if_splits)
    then have l4: "length r4 < length r3" by (rule skip_ws_Cons_shorter)
    show "length r < length s"
    proof (cases "d = 125")
      case True
      with a k sk1 c w g sk3 have "r = r4" by (simp add: parse_object.simps)
      with l4 g show ?thesis by simp
    next
      case False
      with a k sk1 c w g sk3 have d: "\<not> d \<noteq> 44" by (auto simp: parse_object.simps split: if_splits)
      from a k sk1 c w g sk3 False d obtain e r5 where sk4: "skip_ws r4 = e # r5"
        by (cases "skip_ws r4") (simp_all add: parse_object.simps split: if_splits)
      then have l5: "length r5 < length r4" by (rule skip_ws_Cons_shorter)
      from a k sk1 c w g sk3 False d sk4 have e: "e = 34"
        and p: "parse_object (dict_set acc k w) r5 = Some (v, r)"
        by (simp_all add: parse_object.simps split: if_splits)
      from "2.IH"(2) [OF k refl sk1 c w refl g sk3 False d sk4 e] p
      have "length r < length r5" by blast
      with l5 l4 g show ?thesis by simp
    qed
  qed
next
  case (3 acc s)
  show ?case
  proof (intro allI impI)
    fix v r
    assume a: "parse_array acc s = Some (v, r)"
    then obtain w r1 where w: "scan_once s = Some (w, r1)"
      by (cases "scan_once s") (auto simp: parse_array.simps)
    from a w have g: "\<not> length s \<le> length r1" by (auto simp: parse_array.simps split: if_splits)
    from a w g obtain d r2 where sk: "skip_ws r1 = d # r2"
      by (cases "skip_ws r1") (simp_all add: parse_array.simps split: if_splits)
    then have l2: "length r2 < length r1" by (rule skip_ws_Cons_shorter)
    show "length r < length s"
    proof (cases "d = 93")
      case True
      with a w g sk have "r = r2" by (simp add: parse_array.simps)
      with l2 g show ?thesis by simp
    next
      case False
      with a w g sk have d: "\<not> d \<noteq> 44"
        and p: "parse_array (acc @ [w]) (skip_ws r2) = Some (v, r)"
        by (simp_all add: parse_array.simps split: if_splits)
      from "3.IH"(2) [OF w refl g sk False d] p
      have "length r < length (skip_ws r2)" by blast
      with skip_ws_le [of r2] l2 g show ?thesis by simp
    qed
  qed
qed

lemma scan_once_shorter: "scan_once s = Some (v, r) \<Longrightarrow> length r < length s"
  using scan_shorter(1) by blast

lemma parse_array_unguarded:
  "parse_array acc s =
     (case scan_once s of
        None \<Rightarrow> None
      | Some (v, r1) \<Rightarrow>
          (case skip_ws r1 of
             [] \<Rightarrow> None
           | d # r2 \<Rightarrow>
               if d = 93 then Some (JArr (acc @ [v]), r2)
               else if d \<noteq> 44 then None
               else parse_array (acc @ [v]) (skip_ws r2)))"
  by (subst parse_array.simps) (auto split: option.splits dest: scan_once_shorter)

lemma parse_object_unguarded:
  "parse_object acc s =
     (case scanstring s of
        None \<Rightarrow> None
      | Some (k, r1) \<Rightarrow>
          (case skip_ws r1 of
             [] \<Rightarrow> None
           | c # r2 \<Rightarrow>
               if c \<noteq> 58 then None
               else
                 (case scan_once (skip_ws r2) of
                    None \<Rightarrow> None
                  | Some (v, r3) \<Rightarrow>
                      (case skip_ws r3 of
                         [] \<Rightarrow> None
                       | d # r4 \<Rightarrow>
                           if d = 125 then Some (JObj (dict_set acc k v), r4)
                           else if d \<noteq> 44 then None
                           else
                             (case skip_ws r4 of
                                [] \<Rightarrow> None
                              | e # r5 \<Rightarrow>
                                  if e = 34 then parse_object (dict_set acc k v) r5
                                  else None)))))"
proof -
  have "\<not> length s \<le> length r3"
    if "scanstring s = Some (k, r1)" and "skip_ws r1 = c # r2"
      and "scan_once (skip_ws r2) = Some (v, r3)" for k r1 c r2 v r3
  proof -
    have "length r3 < length (skip_ws r2)" using that(3) by (rule scan_once_shorter)
    moreover have "length (skip_ws r2) \<le> length r2" by (rule skip_ws_le)
    moreover have "length r2 < length r1" using that(2) by (rule skip_ws_Cons_shorter)
    moreover have "length r1 < length s" using that(1) by (rule scanstring_shorter)
    ultimately show ?thesis by simp
  qed
  then show ?thesis
    by (subst parse_object.simps) (auto split: option.splits list.splits)
qed

text \<open>
  \<open>json.loads\<close> on a \<open>str\<close>: a leading byte-order mark (code point 65279) is refused; then
  one value, with white space allowed before and after it and nothing else. \<open>None\<close> stands
  for the \<open>ValueError\<close> that Python raises. The interpreter's recursion limit, which also
  ends the parse of a text nested some thousand levels deep, is not modelled.
\<close>

definition json_loads :: "pystr \<Rightarrow> json option" where
  "json_loads s =
     (if take 1 s = [65279] then None
      else (case scan_once (skip_ws s) of
              None \<Rightarrow> None
            | Some (v, r) \<Rightarrow> if skip_ws r = [] then Some v else None))"

section \<open>Generating a problem\<close>

text \<open>
  \<open>key in data\<close> for a string \<open>key\<close> and a parsed value: a key of a \<open>dict\<close>, an element
  of a \<open>list\<close>, a substring of a \<open>str\<close>; any other value is not a container and Python
  raises \<open>TypeError\<close>, which is \<open>None\<close> here.
\<close>

fun py_in :: "pystr \<Rightarrow> json \<Rightarrow> bool option" where
  "py_in k (JObj kvs) = Some (k \<in> set (map fst kvs))"
| "py_in k (JArr xs) = Some (JStr k \<in> set xs)"
| "py_in k (JStr s) = Some (py_contains k s)"
| "py_in k JNull = None"
| "py_in k (JBool b) = None"
| "py_in k (JInt i) = None"
| "py_in k (JFloat f) = None"

text \<open>\<open>all(key in data for key in keys)\<close>: it stops at the first key that is missing.\<close>

fun all_keys_in :: "pystr list \<Rightarrow> json \<Rightarrow> bool option" where
  "all_keys_in [] data = Some True"
| "all_keys_in (k # ks) data =
     (case py_in k data of
        None \<Rightarrow> None
      | Some False \<Rightarrow> Some False
      | Some True \<Rightarrow> all_keys_in ks data)"

definition required_keys :: "pystr list" where
  "required_keys = [lit ''question'', lit ''choices'', lit ''correct_answer'', lit ''explanation'']"

text \<open>The fixed question of the \<open>except\<close> branch; 8594 is the arrow of its explanation.\<close>

definition fallback :: json where
  "fallback =
     JObj [(lit ''question'', JStr (lit ''If 2x + 3 = 11, what is x?'')),
           (lit ''choices'',
              JObj [(lit ''A'', JStr (lit ''3'')), (lit ''B'', JStr (lit ''4'')),
                    (lit ''C'', JStr (lit ''5'')), (lit ''D'', JStr (lit ''6''))]),
           (lit ''correct_answer'', JStr (lit ''B'')),
           (lit ''explanation'',
              JStr (lit ''2x + 3 = 11 '' @ [8594] @ lit '' 2x = 8 '' @ [8594] @ lit '' x = 4''))]"

text \<open>
  What the completion service does when it is called: the call, or reading the text of
  its response, raises, or there is a response text.
\<close>

datatype response = Raises | Text pystr

text \<open>\<open>text.strip()\<close>, then the two \<open>replace\<close> calls, then \<open>strip()\<close> again.\<close>

definition clean_text :: "pystr \<Rightarrow> pystr" where
  "clean_text raw =
     py_strip (py_replace (lit ''```'') [] (py_replace (lit ''```json'') [] (py_strip raw)))"

text \<open>
  \<open>generate_problem\<close>: every exception of the \<open>try\<close> block, the \<open>ValueError\<close> for a
  missing key included, ends in the fallback. The message written to the log is left out.
\<close>

definition generate_problem :: "response \<Rightarrow> json" where
  "generate_problem resp =
     (case resp of
        Raises \<Rightarrow> fallback
      | Text raw \<Rightarrow>
          (case json_loads (clean_text raw) of
             None \<Rightarrow> fallback
           | Some data \<Rightarrow>
               (case all_keys_in required_keys data of
                  Some True \<Rightarrow> data
                | _ \<Rightarrow> fallback)))"


section \<open>The two stores and the handlers\<close>

record score =
  sc_correct :: int
  sc_total :: int

record bot_state =
  user_sessions :: "int \<rightharpoonup> json"
  user_scores :: "int \<rightharpoonup> score"

definition init_state :: bot_state where
  "init_state = \<lparr>user_sessions = Map.empty, user_scores = Map.empty\<rparr>"

text \<open>
  An update of the chat transport, as far as the handlers look at it: the message, if
  any, with its text, if any, and the identity of the user, if any.
\<close>

datatype message = Message (msg_text: "pystr option")

record update =
  upd_message :: "message option"
  effective_user :: "int option"

text \<open>
  What a handler does to the outside, in order: the typing indicator, the call of
  \<open>generate_problem\<close>, a reply. A handler ends normally or with an exception that it does
  not catch; what it wrote to the stores before stays written.
\<close>

datatype effect = SendTyping | CallGenerate | ReplyText pystr

datatype py_exc = TypeError | KeyError | AttributeError

record outcome =
  state :: bot_state
  effects :: "effect list"
  raised :: "py_exc option"

definition done_with :: "bot_state \<Rightarrow> effect list \<Rightarrow> outcome" where
  "done_with st es = \<lparr>state = st, effects = es, raised = None\<rparr>"

definition raise_with :: "bot_state \<Rightarrow> effect list \<Rightarrow> py_exc \<Rightarrow> outcome" where
  "raise_with st es e = \<lparr>state = st, effects = es, raised = Some e\<rparr>"

text \<open>\<open>data[key]\<close> with a string key: only a \<open>dict\<close> can be indexed by a string.\<close>

definition py_getitem :: "json \<Rightarrow> pystr \<Rightarrow> py_exc + json" where
  "py_getitem data k =
     (case data of
        JObj kvs \<Rightarrow> (case map_of kvs k of None \<Rightarrow> Inl KeyError | Some v \<Rightarrow> Inr v)
      | _ \<Rightarrow> Inl TypeError)"

text \<open>
  A value inside an f-string: a \<open>str\<close> is inserted as it is. For a value of another type
  Python inserts \<open>str(value)\<close>; that conversion is the parameter \<open>other\<close>.
\<close>

definition fstr :: "(json \<Rightarrow> pystr) \<Rightarrow> json \<Rightarrow> pystr" where
  "fstr other v = (case v of JStr s \<Rightarrow> s | _ \<Rightarrow> other v)"

definition start_text :: pystr where
  "start_text =
     lit ''Welcome to SAT Math Bot '' @ [128640, 10, 10] @
     lit ''Type /problem to get a new SAT-style question.''"

definition start :: "update \<Rightarrow> bot_state \<Rightarrow> outcome" where
  "start upd st =
     (case upd_message upd of
        None \<Rightarrow> done_with st []
      | Some m \<Rightarrow> done_with st [ReplyText start_text])"

definition already_text :: pystr where
  "already_text = lit ''You already have a question. Answer it first!''"

definition instruction_text :: pystr where
  "instruction_text = [10, 128221] @ lit '' Reply with A, B, C, or D.''"

text \<open>
  The text of the question as \<open>problem\<close> builds it: the question, two line feeds, one
  line \<open>key) value\<close> for every entry of \<open>choices\<close> in the order of the \<open>dict\<close>, and the
  instruction. \<open>choices.items()\<close> raises \<open>AttributeError\<close> when \<open>choices\<close> is no \<open>dict\<close>.
\<close>

definition choice_line :: "(json \<Rightarrow> pystr) \<Rightarrow> pystr \<times> json \<Rightarrow> pystr" where
  "choice_line other kv = fst kv @ lit '') '' @ fstr other (snd kv) @ [10]"

definition format_question :: "(json \<Rightarrow> pystr) \<Rightarrow> json \<Rightarrow> py_exc + pystr" where
  "format_question other data =
     (case py_getitem data (lit ''question'') of
        Inl e \<Rightarrow> Inl e
      | Inr question_text \<Rightarrow>
          (case py_getitem data (lit ''choices'') of
             Inl e \<Rightarrow> Inl e
           | Inr choices \<Rightarrow>
               (case choices of
                  JObj cs \<Rightarrow>
                    Inr (fstr other question_text @ [10, 10] @
                         concat (map (choice_line other) cs) @ instruction_text)
                | _ \<Rightarrow> Inl AttributeError)))"

text \<open>
  The handler of \<open>/problem\<close>. \<open>resp\<close> is what the completion service does if it is called;
  the effect \<open>CallGenerate\<close> records that it was.
\<close>

definition problem :: "(json \<Rightarrow> pystr) \<Rightarrow> response \<Rightarrow> update \<Rightarrow> bot_state \<Rightarrow> outcome" where
  "problem other resp upd st =
     (case (upd_message upd, effective_user upd) of
        (Some m, Some user_id) \<Rightarrow>
          if user_id \<in> dom (user_sessions st)
          then done_with st [ReplyText already_text]
          else
            (let data = generate_problem resp;
                 st1 = st\<lparr>user_sessions := (user_sessions st)(user_id \<mapsto> data)\<rparr>
             in case format_question other data of
                  Inl e \<Rightarrow> raise_with st1 [SendTyping, CallGenerate] e
                | Inr formatted \<Rightarrow>
                    done_with st1 [SendTyping, CallGenerate, ReplyText formatted])
      | _ \<Rightarrow> done_with st [])"

definition please_text :: pystr where
  "please_text = lit ''Please reply with A, B, C, or D.''"

definition letters :: "pystr list" where
  "letters = [lit ''A'', lit ''B'', lit ''C'', lit ''D'']"

definition normalize :: "(nat \<Rightarrow> pystr) \<Rightarrow> pystr \<Rightarrow> pystr" where
  "normalize up t = py_upper up (py_strip t)"

text \<open>\<open>user_scores[user_id]\<close> after the initialisation of a missing record.\<close>

definition score_of :: "bot_state \<Rightarrow> int \<Rightarrow> score" where
  "score_of st user_id =
     (case user_scores st user_id of
        None \<Rightarrow> \<lparr>sc_correct = 0, sc_total = 0\<rparr>
      | Some sc \<Rightarrow> sc)"

text \<open>The record after one graded answer.\<close>

definition graded :: "score \<Rightarrow> bool \<Rightarrow> score" where
  "graded sc right =
     (let sc1 = sc\<lparr>sc_total := sc_total sc + 1\<rparr>
      in if right then sc1\<lparr>sc_correct := sc_correct sc1 + 1\<rparr> else sc1)"

definition verdict_text :: "(json \<Rightarrow> pystr) \<Rightarrow> bool \<Rightarrow> json \<Rightarrow> pystr" where
  "verdict_text other right correct =
     (if right then [9989] @ lit '' Correct!'' @ [10, 10]
      else [10060] @ lit '' Incorrect.'' @ [10] @ lit ''Correct answer: '' @
           fstr other correct @ [10, 10])"

definition score_text :: "score \<Rightarrow> pystr" where
  "score_text sc =
     [10, 10, 128202] @ lit '' Your Score: '' @ str_int (sc_correct sc) @ lit ''/'' @
     str_int (sc_total sc)"

text \<open>
  The handler of a plain text message. The record is written before the reply is built:
  when \<open>explanation\<close> is not a \<open>str\<close>, the concatenation raises \<open>TypeError\<close> after the score
  has changed and before the question is cleared.
\<close>

definition check_answer ::
  "(nat \<Rightarrow> pystr) \<Rightarrow> (json \<Rightarrow> pystr) \<Rightarrow> update \<Rightarrow> bot_state \<Rightarrow> outcome" where
  "check_answer up other upd st =
     (case (upd_message upd, effective_user upd) of
        (Some m, Some user_id) \<Rightarrow>
          (case msg_text m of
             None \<Rightarrow> done_with st []
           | Some t \<Rightarrow>
               (let user_answer = normalize up t in
                case user_sessions st user_id of
                  None \<Rightarrow> done_with st []
                | Some data \<Rightarrow>
                    if user_answer \<notin> set letters
                    then done_with st [ReplyText please_text]
                    else
                      (case py_getitem data (lit ''correct_answer'') of
                         Inl e \<Rightarrow> raise_with st [] e
                       | Inr correct \<Rightarrow>
                           (let right = (JStr user_answer = correct);
                                sc = graded (score_of st user_id) right;
                                st1 = st\<lparr>user_scores := (user_scores st)(user_id \<mapsto> sc)\<rparr>
                            in case py_getitem data (lit ''explanation'') of
                                 Inl e \<Rightarrow> raise_with st1 [] e
                               | Inr (JStr ex) \<Rightarrow>
                                   done_with
                                     (st1\<lparr>user_sessions := (user_sessions st1)(user_id := None)\<rparr>)
                                     [ReplyText (verdict_text other right correct @
                                                 lit ''Explanation:'' @ [10] @ ex @
                                                 score_text sc)]
                               | Inr _ \<Rightarrow> raise_with st1 [] TypeError))))
      | _ \<Rightarrow> done_with st [])"

text \<open>The triggers of the chat transport and a run of the bot over a sequence of them.\<close>

datatype trigger = Start update | NewQuestion response update | Answer update

definition handle ::
  "(nat \<Rightarrow> pystr) \<Rightarrow> (json \<Rightarrow> pystr) \<Rightarrow> bot_state \<Rightarrow> trigger \<Rightarrow> outcome" where
  "handle up other st tr =
     (case tr of
        Start upd \<Rightarrow> start upd st
      | NewQuestion resp upd \<Rightarrow> problem other resp upd st
      | Answer upd \<Rightarrow> check_answer up other upd st)"

definition step ::
  "(nat \<Rightarrow> pystr) \<Rightarrow> (json \<Rightarrow> pystr) \<Rightarrow> bot_state \<Rightarrow> trigger \<Rightarrow> bot_state" where
  "step up other st tr = state (handle up other st tr)"

definition run ::
  "(nat \<Rightarrow> pystr) \<Rightarrow> (json \<Rightarrow> pystr) \<Rightarrow> bot_state \<Rightarrow> trigger list \<Rightarrow> bot_state" where
  "run up other st trs = foldl (step up other) st trs"

text \<open>An update that carries a text from a user.\<close>

definition text_from :: "int \<Rightarrow> pystr \<Rightarrow> update" where
  "text_from user_id t = \<lparr>upd_message = Some (Message (Some t)), effective_user = Some user_id\<rparr>"

section \<open>The vocabulary of the specification\<close>

text \<open>
  The shape that the specification asks of a quiz item, in its words: all four required
  keys present, \<open>choices\<close> with exactly the labels A, B, C, D, and \<open>correct_answer\<close> one of
  the four letters and a key of \<open>choices\<close>.
\<close>

definition spec_well_formed :: "json \<Rightarrow> bool" where
  "spec_well_formed d =
     (case d of
        JObj kvs \<Rightarrow>
          set required_keys \<subseteq> set (map fst kvs) \<and>
          (case map_of kvs (lit ''choices'') of
             Some (JObj cs) \<Rightarrow>
               set (map fst cs) = set letters \<and>
               (case map_of kvs (lit ''correct_answer'') of
                  Some (JStr a) \<Rightarrow> a \<in> set letters \<and> a \<in> set (map fst cs)
                | _ \<Rightarrow> False)
           | _ \<Rightarrow> False)
      | _ \<Rightarrow> False)"

text \<open>
  The question reply in the words of the specification: the question, a blank line, the
  four choices in label order A, B, C, D, each on its own line, and the instruction.
\<close>

definition label_order_text :: "pystr \<Rightarrow> pystr \<Rightarrow> pystr \<Rightarrow> pystr \<Rightarrow> pystr \<Rightarrow> pystr" where
  "label_order_text q a b c d =
     q @ [10, 10] @
     lit ''A) '' @ a @ [10] @ lit ''B) '' @ b @ [10] @
     lit ''C) '' @ c @ [10] @ lit ''D) '' @ d @ [10] @
     [10, 128221] @ lit '' Reply with A, B, C, or D.''"

text \<open>A response text inside a code fence: three backquotes (96), a tag, the payload, three backquotes.\<close>

definition fenced :: "pystr \<Rightarrow> pystr \<Rightarrow> pystr" where
  "fenced tag p = lit ''```'' @ tag @ p @ lit ''```''"

text \<open>The bounds of a score record and the order in which records grow.\<close>

definition score_ok :: "score \<Rightarrow> bool" where
  "score_ok sc \<longleftrightarrow> 0 \<le> sc_correct sc \<and> sc_correct sc \<le> sc_total sc"

definition scores_ok :: "bot_state \<Rightarrow> bool" where
  "scores_ok st \<longleftrightarrow> (\<forall>u sc. user_scores st u = Some sc \<longrightarrow> score_ok sc)"

definition score_le :: "score \<Rightarrow> score \<Rightarrow> bool" where
  "score_le a b \<longleftrightarrow> sc_correct a \<le> sc_correct b \<and> sc_total a \<le> sc_total b"

text \<open>A single upper-case letter of the alphabet, as the value of \<open>correct_answer\<close>.\<close>

definition upper_single_letter :: "json \<Rightarrow> bool" where
  "upper_single_letter v = (case v of JStr [c] \<Rightarrow> 65 \<le> c \<and> c \<le> 90 | _ \<Rightarrow> False)"


section \<open>Examples\<close>

text \<open>
  \<open>str()\<close> for the values where it is short to write down, and the empty text elsewhere.
  It stands for the parameter \<open>other\<close> in the examples, none of which formats a value
  that is not a \<open>str\<close>.
\<close>

definition example_str :: "json \<Rightarrow> pystr" where
  "example_str v =
     (case v of
        JNull \<Rightarrow> lit ''None''
      | JBool b \<Rightarrow> (if b then lit ''True'' else lit ''False'')
      | JInt i \<Rightarrow> str_int i
      | _ \<Rightarrow> [])"

text \<open>
  Two lines of the upper-case table, U+00DF to SS and U+0131 (the dotless i) to I, and
  no change elsewhere. It stands for the parameter \<open>up\<close> in the examples, whose texts have
  no other code point beyond ASCII.
\<close>

definition example_upper :: "nat \<Rightarrow> pystr" where
  "example_upper c = (if c = 223 then [83, 83] else if c = 305 then [73] else [c])"

text \<open>A response in the shape that the prompt asks for, and the item it parses to.\<close>

definition sample_text :: pystr where
  "sample_text = lit ''{\"question\": \"q\", \"choices\": {\"A\": \"1\", \"B\": \"2\", \"C\": \"3\", \"D\": \"4\"}, \"correct_answer\": \"A\", \"explanation\": \"e\"}''"

definition sample_item :: json where
  "sample_item =
     JObj [(lit ''question'', JStr (lit ''q'')),
           (lit ''choices'',
              JObj [(lit ''A'', JStr (lit ''1'')), (lit ''B'', JStr (lit ''2'')),
                    (lit ''C'', JStr (lit ''3'')), (lit ''D'', JStr (lit ''4''))]),
           (lit ''correct_answer'', JStr (lit ''A'')),
           (lit ''explanation'', JStr (lit ''e''))]"

text \<open>A response with the four keys, no choices and an answer that is no label.\<close>

definition unchecked_text :: pystr where
  "unchecked_text = lit ''{\"question\": \"q\", \"choices\": {}, \"correct_answer\": \"Z\", \"explanation\": \"e\"}''"

definition unchecked_item :: json where
  "unchecked_item =
     JObj [(lit ''question'', JStr (lit ''q'')), (lit ''choices'', JObj []),
           (lit ''correct_answer'', JStr (lit ''Z'')), (lit ''explanation'', JStr (lit ''e''))]"

text \<open>A response that is a JSON array of the four key names, and one that is not JSON.\<close>

definition list_text :: pystr where
  "list_text = lit ''[\"question\", \"choices\", \"correct_answer\", \"explanation\"]''"

definition list_item :: json where
  "list_item =
     JArr [JStr (lit ''question''), JStr (lit ''choices''), JStr (lit ''correct_answer''),
           JStr (lit ''explanation'')]"

definition prose_text :: pystr where
  "prose_text = lit ''Sure! Here is a problem.''"

definition partial_text :: pystr where
  "partial_text = lit ''{\"question\": \"q\"}''"

text \<open>The shaped item with its choices listed in the order B, A, C, D.\<close>

definition shuffled_item :: json where
  "shuffled_item =
     JObj [(lit ''question'', JStr (lit ''q'')),
           (lit ''choices'',
              JObj [(lit ''B'', JStr (lit ''2'')), (lit ''A'', JStr (lit ''1'')),
                    (lit ''C'', JStr (lit ''3'')), (lit ''D'', JStr (lit ''4''))]),
           (lit ''correct_answer'', JStr (lit ''A'')),
           (lit ''explanation'', JStr (lit ''e''))]"

definition shuffled_text :: pystr where
  "shuffled_text = lit ''{\"question\": \"q\", \"choices\": {\"B\": \"2\", \"A\": \"1\", \"C\": \"3\", \"D\": \"4\"}, \"correct_answer\": \"A\", \"explanation\": \"e\"}''"

text \<open>The shaped item with the answer written in lower case.\<close>

definition lowercase_item :: json where
  "lowercase_item =
     JObj [(lit ''question'', JStr (lit ''q'')),
           (lit ''choices'',
              JObj [(lit ''A'', JStr (lit ''1'')), (lit ''B'', JStr (lit ''2'')),
                    (lit ''C'', JStr (lit ''3'')), (lit ''D'', JStr (lit ''4''))]),
           (lit ''correct_answer'', JStr (lit ''b'')),
           (lit ''explanation'', JStr (lit ''e''))]"

text \<open>
  States in which user 7 has an open question and no score yet: the sample item, the
  fallback item, the item with the lower-case answer.
\<close>

definition awaiting_state :: bot_state where
  "awaiting_state = \<lparr>user_sessions = [7 \<mapsto> sample_item], user_scores = Map.empty\<rparr>"

definition fallback_state :: bot_state where
  "fallback_state = \<lparr>user_sessions = [7 \<mapsto> fallback], user_scores = Map.empty\<rparr>"

definition lowercase_state :: bot_state where
  "lowercase_state = \<lparr>user_sessions = [7 \<mapsto> lowercase_item], user_scores = Map.empty\<rparr>"

text \<open>The state after user 7 asked for a question and the service answered with the array.\<close>

definition list_state :: bot_state where
  "list_state =
     run example_upper example_str init_state [NewQuestion (Text list_text) (text_from 7 (lit ''/problem''))]"

section \<open>Facts about the handlers\<close>

lemmas eval_defs =
  lit_def json_loads_def skip_ws_def is_json_ws_def scan_once.simps parse_object.simps
  parse_array.simps clean_text_def py_strip_def py_isspace_def py_replace_def
  generate_problem_def required_keys_def match_number_def is_digit_def scan_fraction_def
  scan_exponent_def int_of_digits_def backslash_def decode_u_def hex4_def hexval_def

lemmas text_defs =
  lit_def normalize_def py_strip_def py_upper_def upper_full_def py_isspace_def upper_cp_def
  letters_def

lemma problem_conflict:
  assumes "upd_message upd = Some m" and "effective_user upd = Some uid"
    and "user_sessions st uid \<noteq> None"
  shows "problem other resp upd st = done_with st [ReplyText already_text]"
  using assms by (auto simp: problem_def dom_def)

lemma problem_stores:
  assumes "upd_message upd = Some m" and "effective_user upd = Some uid"
  shows "user_sessions (state (problem other resp upd st)) uid \<noteq> None"
  using assms
  by (auto simp: problem_def Let_def done_with_def raise_with_def dom_def split: sum.splits)

lemma check_answer_malformed:
  assumes "upd_message upd = Some m" and "msg_text m = Some t"
    and "effective_user upd = Some uid"
    and "user_sessions st uid = Some item" and "normalize up t \<notin> set letters"
  shows "check_answer up other upd st = done_with st [ReplyText please_text]"
  using assms by (simp add: check_answer_def Let_def)

text \<open>The score after an answer that is graded, and the whole outcome when there is a reply.\<close>

lemma check_answer_graded:
  assumes "upd_message upd = Some m" and "msg_text m = Some t"
    and "effective_user upd = Some uid"
    and "user_sessions st uid = Some (JObj kvs)"
    and "map_of kvs (lit ''correct_answer'') = Some correct"
    and "normalize up t \<in> set letters"
  shows "user_scores (state (check_answer up other upd st)) =
           (user_scores st)(uid \<mapsto> graded (score_of st uid) (JStr (normalize up t) = correct))"
  using assms
  by (auto simp: check_answer_def Let_def py_getitem_def done_with_def raise_with_def
           split: option.splits json.splits)

lemma check_answer_reply:
  assumes "upd_message upd = Some m" and "msg_text m = Some t"
    and "effective_user upd = Some uid"
    and "user_sessions st uid = Some (JObj kvs)"
    and "map_of kvs (lit ''correct_answer'') = Some correct"
    and "map_of kvs (lit ''explanation'') = Some (JStr ex)"
    and "normalize up t \<in> set letters"
  shows "effects (check_answer up other upd st) =
           [ReplyText (verdict_text other (JStr (normalize up t) = correct) correct @
                       lit ''Explanation:'' @ [10] @ ex @
                       score_text (graded (score_of st uid) (JStr (normalize up t) = correct)))]"
  using assms
  by (simp add: check_answer_def Let_def py_getitem_def done_with_def)

lemma run_replicate_fixed:
  assumes "step up other st tr = st"
  shows "run up other st (replicate n tr) = st"
  using assms by (induction n) (simp_all add: run_def)


section \<open>The claims\<close>

subsection \<open>Requests and answers that change nothing\<close>

text \<open>
  Claim C3. A user has at most one open question, since the sessions are a map from users
  to items. A request for a new question from a user who has one is answered with the
  text "You already have a question. Answer it first!" and nothing else happens: the
  state, that is the sessions with the stored item and the scores, is the same, and the
  only effect is the reply, so \<open>generate_problem\<close> is not called. In particular a second
  request right after a first one is refused and leaves the state of the first.
\<close>

theorem new_question_refused_while_open:
  assumes "upd_message upd = Some m" and "effective_user upd = Some uid"
  shows "(user_sessions st uid \<noteq> None \<longrightarrow>
            problem other resp upd st =
              \<lparr>state = st,
               effects = [ReplyText (lit ''You already have a question. Answer it first!'')],
               raised = None\<rparr>) \<and>
         problem other resp' upd (state (problem other resp upd st)) =
           \<lparr>state = state (problem other resp upd st),
            effects = [ReplyText (lit ''You already have a question. Answer it first!'')],
            raised = None\<rparr>"
proof -
  have first: "user_sessions st uid \<noteq> None \<longrightarrow>
        problem other resp upd st = done_with st [ReplyText already_text]"
    using assms by (simp add: problem_conflict)
  have "user_sessions (state (problem other resp upd st)) uid \<noteq> None"
    using assms by (rule problem_stores)
  with assms have "problem other resp' upd (state (problem other resp upd st)) =
      done_with (state (problem other resp upd st)) [ReplyText already_text]"
    by (rule problem_conflict)
  with first show ?thesis by (simp add: done_with_def already_text_def)
qed

theorem new_question_refused_while_open_witness:
  "user_sessions awaiting_state 7 = Some sample_item \<and>
   problem example_str (Text sample_text) (text_from 7 (lit ''/problem'')) awaiting_state =
     \<lparr>state = awaiting_state,
      effects = [ReplyText (lit ''You already have a question. Answer it first!'')],
      raised = None\<rparr>"
  using new_question_refused_while_open
          [of "text_from 7 (lit ''/problem'')" "Message (Some (lit ''/problem''))" 7
              awaiting_state example_str "Text sample_text" Raises]
  by (simp add: text_from_def awaiting_state_def)

text \<open>
  Claim C5. While a user has an open question, a text whose normal form (stripped, then
  upper-cased) is none of A, B, C, D is answered with "Please reply with A, B, C, or D."
  and changes nothing: the stored item and the scores stay as they are, however often
  the text is sent.
\<close>

theorem malformed_answer_changes_nothing:
  assumes "upd_message upd = Some m" and "msg_text m = Some t"
    and "effective_user upd = Some uid"
    and "user_sessions st uid = Some item" and "normalize up t \<notin> set letters"
  shows "check_answer up other upd st =
           \<lparr>state = st, effects = [ReplyText (lit ''Please reply with A, B, C, or D.'')],
            raised = None\<rparr> \<and>
         run up other st (replicate n (Answer upd)) = st"
proof -
  have one: "check_answer up other upd st = done_with st [ReplyText please_text]"
    using assms by (rule check_answer_malformed)
  then have "step up other st (Answer upd) = st"
    by (simp add: step_def handle_def done_with_def)
  then have "run up other st (replicate n (Answer upd)) = st"
    by (rule run_replicate_fixed)
  with one show ?thesis by (simp add: done_with_def please_text_def)
qed

theorem malformed_answer_changes_nothing_witness:
  "normalize example_upper (lit ''E'') \<notin> set letters \<and>
   check_answer example_upper example_str (text_from 7 (lit ''E'')) awaiting_state =
     \<lparr>state = awaiting_state,
      effects = [ReplyText (lit ''Please reply with A, B, C, or D.'')], raised = None\<rparr> \<and>
   run example_upper example_str awaiting_state (replicate 3 (Answer (text_from 7 (lit ''E'')))) =
     awaiting_state"
proof -
  have n: "normalize example_upper (lit ''E'') \<notin> set letters" by (simp add: text_defs)
  have s: "user_sessions awaiting_state 7 = Some sample_item"
    by (simp add: awaiting_state_def)
  show ?thesis
    using n malformed_answer_changes_nothing
            [of "text_from 7 (lit ''E'')" "Message (Some (lit ''E''))" "lit ''E''" 7
                awaiting_state sample_item example_upper example_str 3, OF _ _ _ s n]
    by (simp add: text_from_def)
qed

text \<open>
  Claim C8. The answer handler normalizes the submitted text by stripping it and then
  upper-casing it, and what it does depends on the text only through that normal form.
  For two messages of a user whose texts agree after stripping and upper-casing, the
  outcome is the same: the same state, the same reply and the same exception, if any.
  While the user has an open question that is a JSON object with a \<open>correct_answer\<close>,
  the normal form of the one text decides how the other is handled: when it is one of
  A, B, C, D, the record written is the old one graded as correct exactly when the normal
  form equals the stored answer, and the reply, sent when the explanation is a text,
  carries the verdict for that comparison and the new tally; when it is none of the
  four letters, the reply is the request for a letter and the state stays.
\<close>

theorem same_normal_form_same_outcome:
  assumes "py_upper up (py_strip t1) = py_upper up (py_strip t2)"
    and "upd_message u1 = Some m1" and "msg_text m1 = Some t1"
    and "effective_user u1 = Some uid"
    and "upd_message u2 = Some m2" and "msg_text m2 = Some t2"
    and "effective_user u2 = Some uid"
  shows "check_answer up other u1 st = check_answer up other u2 st \<and>
         (\<forall>kvs correct.
            user_sessions st uid = Some (JObj kvs) \<and>
            map_of kvs (lit ''correct_answer'') = Some correct \<and>
            py_upper up (py_strip t1) \<in> set letters \<longrightarrow>
              user_scores (state (check_answer up other u2 st)) uid =
                Some (graded (score_of st uid) (JStr (py_upper up (py_strip t1)) = correct)) \<and>
              (\<forall>ex. map_of kvs (lit ''explanation'') = Some (JStr ex) \<longrightarrow>
                 effects (check_answer up other u2 st) =
                   [ReplyText
                      ((if JStr (py_upper up (py_strip t1)) = correct
                        then [9989] @ lit '' Correct!'' @ [10, 10]
                        else [10060] @ lit '' Incorrect.'' @ [10] @ lit ''Correct answer: '' @
                             fstr other correct @ [10, 10]) @
                       lit ''Explanation:'' @ [10] @ ex @
                       score_text
                         (graded (score_of st uid)
                            (JStr (py_upper up (py_strip t1)) = correct)))])) \<and>
         (user_sessions st uid \<noteq> None \<and> py_upper up (py_strip t1) \<notin> set letters \<longrightarrow>
            check_answer up other u2 st =
              \<lparr>state = st, effects = [ReplyText (lit ''Please reply with A, B, C, or D.'')],
               raised = None\<rparr>)"
proof -
  have n: "normalize up t1 = normalize up t2" and n1: "normalize up t1 = py_upper up (py_strip t1)"
    using assms(1) by (simp_all add: normalize_def)
  have same: "check_answer up other u1 st = check_answer up other u2 st"
    using assms(2-7) n by (simp add: check_answer_def Let_def)
  have graded:
    "user_scores (state (check_answer up other u2 st)) uid =
       Some (graded (score_of st uid) (JStr (py_upper up (py_strip t1)) = correct)) \<and>
     (\<forall>ex. map_of kvs (lit ''explanation'') = Some (JStr ex) \<longrightarrow>
        effects (check_answer up other u2 st) =
          [ReplyText
             ((if JStr (py_upper up (py_strip t1)) = correct
               then [9989] @ lit '' Correct!'' @ [10, 10]
               else [10060] @ lit '' Incorrect.'' @ [10] @ lit ''Correct answer: '' @
                    fstr other correct @ [10, 10]) @
              lit ''Explanation:'' @ [10] @ ex @
              score_text
                (graded (score_of st uid) (JStr (py_upper up (py_strip t1)) = correct)))])"
    if h: "user_sessions st uid = Some (JObj kvs) \<and>
           map_of kvs (lit ''correct_answer'') = Some correct \<and>
           py_upper up (py_strip t1) \<in> set letters" for kvs correct
  proof -
    from h have s: "user_sessions st uid = Some (JObj kvs)"
      and c: "map_of kvs (lit ''correct_answer'') = Some correct"
      and l: "normalize up t2 \<in> set letters"
      using n n1 by simp_all
    have "user_scores (state (check_answer up other u2 st)) uid =
            Some (graded (score_of st uid) (JStr (normalize up t2) = correct))"
      using check_answer_graded [OF assms(5-7) s c l, of other] by simp
    moreover have "effects (check_answer up other u2 st) =
          [ReplyText (verdict_text other (JStr (normalize up t2) = correct) correct @
                      lit ''Explanation:'' @ [10] @ ex @
                      score_text (graded (score_of st uid) (JStr (normalize up t2) = correct)))]"
      if "map_of kvs (lit ''explanation'') = Some (JStr ex)" for ex
      using assms(5-7) s c that l by (rule check_answer_reply)
    ultimately show ?thesis
      using n n1 by (simp add: verdict_text_def)
  qed
  have malformed: "check_answer up other u2 st =
              \<lparr>state = st, effects = [ReplyText (lit ''Please reply with A, B, C, or D.'')],
               raised = None\<rparr>"
    if h: "user_sessions st uid \<noteq> None \<and> py_upper up (py_strip t1) \<notin> set letters"
  proof -
    from h obtain item where s: "user_sessions st uid = Some item" by auto
    from h have l: "normalize up t2 \<notin> set letters" using n n1 by simp
    from assms(5-7) s l
    have "check_answer up other u2 st = done_with st [ReplyText please_text]"
      by (rule check_answer_malformed)
    then show ?thesis by (simp add: done_with_def please_text_def)
  qed
  from same graded malformed show ?thesis by blast
qed

theorem same_normal_form_same_outcome_witness:
  "py_upper example_upper (py_strip (lit '' b '')) = lit ''B'' \<and>
   py_upper example_upper (py_strip (lit ''b'')) = lit ''B'' \<and>
   py_upper example_upper (py_strip (lit ''B'')) = lit ''B'' \<and>
   check_answer example_upper example_str (text_from 7 (lit '' b '')) fallback_state =
     check_answer example_upper example_str (text_from 7 (lit ''B'')) fallback_state \<and>
   check_answer example_upper example_str (text_from 7 (lit ''b'')) fallback_state =
     check_answer example_upper example_str (text_from 7 (lit ''B'')) fallback_state \<and>
   user_scores
     (state (check_answer example_upper example_str (text_from 7 (lit ''B'')) fallback_state)) 7 =
     Some \<lparr>sc_correct = 1, sc_total = 1\<rparr> \<and>
   effects (check_answer example_upper example_str (text_from 7 (lit ''B'')) fallback_state) =
     [ReplyText ([9989] @ lit '' Correct!'' @ [10, 10] @ lit ''Explanation:'' @ [10] @
                 lit ''2x + 3 = 11 '' @ [8594] @ lit '' 2x = 8 '' @ [8594] @ lit '' x = 4'' @
                 [10, 10, 128202] @ lit '' Your Score: 1/1'')]"
proof -
  define kvs where "kvs =
     [(lit ''question'', JStr (lit ''If 2x + 3 = 11, what is x?'')),
      (lit ''choices'',
         JObj [(lit ''A'', JStr (lit ''3'')), (lit ''B'', JStr (lit ''4'')),
               (lit ''C'', JStr (lit ''5'')), (lit ''D'', JStr (lit ''6''))]),
      (lit ''correct_answer'', JStr (lit ''B'')),
      (lit ''explanation'',
         JStr (lit ''2x + 3 = 11 '' @ [8594] @ lit '' 2x = 8 '' @ [8594] @ lit '' x = 4''))]"
  have a: "py_upper example_upper (py_strip (lit '' b '')) = lit ''B''"
    by (simp add: text_defs)
  have b: "py_upper example_upper (py_strip (lit ''b'')) = lit ''B''"
    by (simp add: text_defs)
  have c: "py_upper example_upper (py_strip (lit ''B'')) = lit ''B''"
    by (simp add: text_defs)
  from a c have ac: "py_upper example_upper (py_strip (lit '' b '')) =
                     py_upper example_upper (py_strip (lit ''B''))" by simp
  from b c have bc: "py_upper example_upper (py_strip (lit ''b'')) =
                     py_upper example_upper (py_strip (lit ''B''))" by simp
  have s: "user_sessions fallback_state 7 = Some (JObj kvs)"
    by (simp add: fallback_state_def fallback_def kvs_def)
  have k: "map_of kvs (lit ''correct_answer'') = Some (JStr (lit ''B''))"
    by (simp add: kvs_def lit_def)
  have e: "map_of kvs (lit ''explanation'') =
             Some (JStr (lit ''2x + 3 = 11 '' @ [8594] @ lit '' 2x = 8 '' @ [8594] @
                         lit '' x = 4''))"
    by (simp add: kvs_def lit_def)
  have l: "lit ''B'' \<in> set letters" by (simp add: letters_def)
  have z: "graded (score_of fallback_state 7) True = \<lparr>sc_correct = 1, sc_total = 1\<rparr>"
    by (simp add: graded_def score_of_def fallback_state_def Let_def)
  have t: "score_text \<lparr>sc_correct = 1, sc_total = 1\<rparr> =
             [10, 10, 128202] @ lit '' Your Score: 1/1''"
    by (simp add: score_text_def str_int_def dec_digits.simps [of "Suc 0"] lit_def)
  note th1 = same_normal_form_same_outcome
               [where ?t1.0 = "lit '' b ''" and ?t2.0 = "lit ''B''" and up = example_upper
                  and ?u1.0 = "text_from 7 (lit '' b '')" and ?u2.0 = "text_from 7 (lit ''B'')"
                  and ?m1.0 = "Message (Some (lit '' b ''))"
                  and ?m2.0 = "Message (Some (lit ''B''))" and uid = 7
                  and other = example_str and st = fallback_state, OF ac]
  note th2 = same_normal_form_same_outcome
               [where ?t1.0 = "lit ''b''" and ?t2.0 = "lit ''B''" and up = example_upper
                  and ?u1.0 = "text_from 7 (lit ''b'')" and ?u2.0 = "text_from 7 (lit ''B'')"
                  and ?m1.0 = "Message (Some (lit ''b''))"
                  and ?m2.0 = "Message (Some (lit ''B''))" and uid = 7
                  and other = example_str and st = fallback_state, OF bc]
  have u: "upd_message (text_from 7 x) = Some (Message (Some x))"
    "effective_user (text_from 7 x) = Some 7" for x
    by (simp_all add: text_from_def)
  have r1: "check_answer example_upper example_str (text_from 7 (lit '' b '')) fallback_state =
            check_answer example_upper example_str (text_from 7 (lit ''B'')) fallback_state"
    using th1 [THEN conjunct1] u by simp
  have r2: "check_answer example_upper example_str (text_from 7 (lit ''b'')) fallback_state =
            check_answer example_upper example_str (text_from 7 (lit ''B'')) fallback_state"
    using th2 [THEN conjunct1] u by simp
  have g: "user_scores
     (state (check_answer example_upper example_str (text_from 7 (lit ''B'')) fallback_state)) 7 =
       Some \<lparr>sc_correct = 1, sc_total = 1\<rparr> \<and>
     effects (check_answer example_upper example_str (text_from 7 (lit ''B'')) fallback_state) =
       [ReplyText ([9989] @ lit '' Correct!'' @ [10, 10] @ lit ''Explanation:'' @ [10] @
                 lit ''2x + 3 = 11 '' @ [8594] @ lit '' 2x = 8 '' @ [8594] @ lit '' x = 4'' @
                 [10, 10, 128202] @ lit '' Your Score: 1/1'')]"
    using th1 [THEN conjunct2, THEN conjunct1, rule_format, of kvs "JStr (lit ''B'')"]
      u s k e l a z t
    by simp
  from a b c r1 r2 g show ?thesis by blast
qed

text \<open>
  Texts that agree only through the table beyond ASCII are covered: with the two lines
  of the example table, the dotless i has the normal form of i, and U+00DF that of ss.
\<close>

lemma normal_forms_beyond_ascii:
  "py_upper example_upper (py_strip [305]) = py_upper example_upper (py_strip (lit ''i''))"
  "py_upper example_upper (py_strip [223]) = py_upper example_upper (py_strip (lit ''ss''))"
  by (simp_all add: text_defs example_upper_def)

text \<open>
  Claim C9. A message from a user who has no open question does nothing: the handler
  sends no reply and leaves the sessions and the scores as they are, whatever the text.
\<close>

theorem answer_without_question_is_noop:
  assumes "effective_user upd = Some uid" and "user_sessions st uid = None"
  shows "check_answer up other upd st = \<lparr>state = st, effects = [], raised = None\<rparr>"
  using assms
  by (simp add: check_answer_def done_with_def Let_def split: option.splits)

theorem answer_without_question_is_noop_witness:
  "user_sessions init_state 7 = None \<and>
   check_answer example_upper example_str (text_from 7 (lit ''B'')) init_state =
     \<lparr>state = init_state, effects = [], raised = None\<rparr>"
  using answer_without_question_is_noop
          [of "text_from 7 (lit ''B'')" 7 init_state example_upper example_str]
  by (simp add: text_from_def init_state_def)

subsection \<open>Scores\<close>

lemma graded_total: "sc_total (graded sc r) = sc_total sc + 1"
  by (simp add: graded_def Let_def)

lemma graded_correct: "sc_correct (graded sc r) = sc_correct sc + (if r then 1 else 0)"
  by (simp add: graded_def Let_def)

lemma graded_ok: "score_ok sc \<Longrightarrow> score_ok (graded sc r)"
  by (simp add: score_ok_def graded_total graded_correct)

lemma score_le_graded: "score_le sc (graded sc r)"
  by (simp add: score_le_def graded_total graded_correct)

lemma score_le_refl: "score_le a a"
  by (simp add: score_le_def)

lemma score_le_trans: "score_le a b \<Longrightarrow> score_le b c \<Longrightarrow> score_le a c"
  by (auto simp: score_le_def)

text \<open>A handler leaves the scores alone or writes one graded record.\<close>

lemma check_answer_scores:
  "user_scores (state (check_answer up other upd st)) = user_scores st \<or>
   (\<exists>u r. user_scores (state (check_answer up other upd st)) =
            (user_scores st)(u \<mapsto> graded (score_of st u) r))"
  by (auto simp: check_answer_def Let_def done_with_def raise_with_def
           split: option.splits sum.splits json.splits prod.splits)

lemma step_scores:
  "user_scores (step up other st tr) = user_scores st \<or>
   (\<exists>u r. user_scores (step up other st tr) = (user_scores st)(u \<mapsto> graded (score_of st u) r))"
proof (cases tr)
  case (Start upd)
  then show ?thesis
    by (simp add: step_def handle_def start_def done_with_def split: option.splits)
next
  case (NewQuestion resp upd)
  then show ?thesis
    by (simp add: step_def handle_def problem_def done_with_def raise_with_def Let_def
             split: option.splits sum.splits)
next
  case (Answer upd)
  then show ?thesis
    using check_answer_scores [of up other upd st] by (simp add: step_def handle_def)
qed

lemma score_of_ok: "scores_ok st \<Longrightarrow> score_ok (score_of st u)"
  by (simp add: scores_ok_def score_of_def score_ok_def split: option.splits)

lemma step_scores_ok:
  assumes "scores_ok st"
  shows "scores_ok (step up other st tr)"
proof -
  from step_scores [of up other st tr] show ?thesis
  proof
    assume "user_scores (step up other st tr) = user_scores st"
    with assms show ?thesis by (simp add: scores_ok_def)
  next
    assume "\<exists>u r. user_scores (step up other st tr) =
                    (user_scores st)(u \<mapsto> graded (score_of st u) r)"
    then obtain u r where
      eq: "user_scores (step up other st tr) = (user_scores st)(u \<mapsto> graded (score_of st u) r)"
      by blast
    have "score_ok (graded (score_of st u) r)"
      using assms by (simp add: graded_ok score_of_ok)
    with assms eq show ?thesis by (simp add: scores_ok_def)
  qed
qed

lemma step_score_le: "score_le (score_of st v) (score_of (step up other st tr) v)"
proof -
  from step_scores [of up other st tr] show ?thesis
  proof
    assume "user_scores (step up other st tr) = user_scores st"
    then show ?thesis by (simp add: score_of_def score_le_refl)
  next
    assume "\<exists>u r. user_scores (step up other st tr) =
                    (user_scores st)(u \<mapsto> graded (score_of st u) r)"
    then obtain u r where
      eq: "user_scores (step up other st tr) = (user_scores st)(u \<mapsto> graded (score_of st u) r)"
      by blast
    show ?thesis
    proof (cases "v = u")
      case True
      with eq have "score_of (step up other st tr) v = graded (score_of st v) r"
        by (simp add: score_of_def)
      then show ?thesis by (simp add: score_le_graded)
    next
      case False
      with eq have "score_of (step up other st tr) v = score_of st v"
        by (simp add: score_of_def)
      then show ?thesis by (simp add: score_le_refl)
    qed
  qed
qed

lemma run_scores_ok: "scores_ok st \<Longrightarrow> scores_ok (run up other st trs)"
  by (induction trs arbitrary: st) (simp_all add: run_def step_scores_ok)

lemma run_score_le: "score_le (score_of st v) (score_of (run up other st trs) v)"
proof (induction trs arbitrary: st)
  case Nil
  show ?case by (simp add: run_def score_le_refl)
next
  case (Cons tr trs)
  have "score_le (score_of st v) (score_of (step up other st tr) v)"
    by (rule step_score_le)
  moreover have "score_le (score_of (step up other st tr) v)
                          (score_of (run up other (step up other st tr) trs) v)"
    by (rule Cons.IH)
  ultimately have "score_le (score_of st v) (score_of (run up other (step up other st tr) trs) v)"
    by (rule score_le_trans)
  then show ?case by (simp add: run_def)
qed

lemma run_append: "run up other st (xs @ ys) = run up other (run up other st xs) ys"
  by (simp add: run_def)

lemma init_scores_ok: "scores_ok init_state"
  by (simp add: scores_ok_def init_state_def)

lemma letters_upper: "a \<in> set letters \<Longrightarrow> upper_single_letter (JStr a)"
  by (auto simp: letters_def lit_def upper_single_letter_def)

lemma list_text_parsed: "generate_problem (Text list_text) = list_item"
  by (simp add: list_text_def list_item_def eval_defs)

lemma list_state_eq:
  "list_state = \<lparr>user_sessions = [7 \<mapsto> list_item], user_scores = Map.empty\<rparr>"
  by (simp add: list_state_def run_def step_def handle_def problem_def text_from_def
                init_state_def list_text_parsed Let_def format_question_def py_getitem_def
                list_item_def raise_with_def)

text \<open>
  What the code does for an answer that normalizes to one of A, B, C, D when the item
  stored for the user is a JSON object with an entry \<open>correct_answer\<close>, as every object
  that \<open>generate_problem\<close> returns is: the user's record, taken as 0 of 0 when there is
  none, is written back with \<open>total\<close> one higher and \<open>correct\<close> one higher exactly when
  the normalized answer equals the stored \<open>correct_answer\<close>. A grading keeps
  \<open>0 \<le> correct \<le> total\<close>, which therefore holds in every state that a sequence of
  triggers reaches from the empty stores, and along every such sequence the two counters
  of every user never decrease.
\<close>

lemma graded_answer_score_on_objects:
  assumes "upd_message upd = Some m" and "msg_text m = Some t"
    and "effective_user upd = Some uid"
    and "user_sessions st uid = Some (JObj kvs)"
    and "map_of kvs (lit ''correct_answer'') = Some correct"
    and "normalize up t \<in> set letters"
  shows "(\<exists>sc. user_scores (state (check_answer up other upd st)) uid = Some sc \<and>
              sc_total sc = sc_total (score_of st uid) + 1 \<and>
              sc_correct sc =
                sc_correct (score_of st uid) + (if JStr (normalize up t) = correct then 1 else 0)) \<and>
         (user_scores st uid = None \<longrightarrow> score_of st uid = \<lparr>sc_correct = 0, sc_total = 0\<rparr>) \<and>
         (scores_ok st \<longrightarrow> scores_ok (state (check_answer up other upd st))) \<and>
         scores_ok (run up other init_state trs) \<and>
         score_le (score_of (run up other init_state trs) u)
                  (score_of (run up other init_state (trs @ trs')) u)"
proof -
  have "user_scores (state (check_answer up other upd st)) uid =
          Some (graded (score_of st uid) (JStr (normalize up t) = correct))"
    using check_answer_graded [OF assms, of other] by simp
  then have a: "\<exists>sc. user_scores (state (check_answer up other upd st)) uid = Some sc \<and>
              sc_total sc = sc_total (score_of st uid) + 1 \<and>
              sc_correct sc =
                sc_correct (score_of st uid) + (if JStr (normalize up t) = correct then 1 else 0)"
    by (simp add: graded_total graded_correct)
  have b: "user_scores st uid = None \<longrightarrow> score_of st uid = \<lparr>sc_correct = 0, sc_total = 0\<rparr>"
    by (simp add: score_of_def)
  have c: "scores_ok st \<longrightarrow> scores_ok (state (check_answer up other upd st))"
    using step_scores_ok [of st up other "Answer upd"] by (simp add: step_def handle_def)
  have d: "scores_ok (run up other init_state trs)"
    using init_scores_ok by (rule run_scores_ok)
  have e: "score_le (score_of (run up other init_state trs) u)
                    (score_of (run up other init_state (trs @ trs')) u)"
    by (simp add: run_append run_score_le)
  from a b c d e show ?thesis by blast
qed

lemma graded_answer_score_example:
  "normalize example_upper (lit '' a '') \<in> set letters \<and>
   user_scores (state (check_answer example_upper example_str (text_from 7 (lit '' a '')) awaiting_state)) 7 =
     Some \<lparr>sc_correct = 1, sc_total = 1\<rparr>"
proof -
  have n: "normalize example_upper (lit '' a '') = lit ''A''" by (simp add: text_defs)
  then have l: "normalize example_upper (lit '' a '') \<in> set letters" by (simp add: letters_def)
  have s: "user_sessions awaiting_state 7 =
             Some (JObj [(lit ''question'', JStr (lit ''q'')),
               (lit ''choices'',
                  JObj [(lit ''A'', JStr (lit ''1'')), (lit ''B'', JStr (lit ''2'')),
                        (lit ''C'', JStr (lit ''3'')), (lit ''D'', JStr (lit ''4''))]),
               (lit ''correct_answer'', JStr (lit ''A'')),
               (lit ''explanation'', JStr (lit ''e''))])"
    by (simp add: awaiting_state_def sample_item_def)
  have k: "map_of [(lit ''question'', JStr (lit ''q'')),
               (lit ''choices'',
                  JObj [(lit ''A'', JStr (lit ''1'')), (lit ''B'', JStr (lit ''2'')),
                        (lit ''C'', JStr (lit ''3'')), (lit ''D'', JStr (lit ''4''))]),
               (lit ''correct_answer'', JStr (lit ''A'')),
               (lit ''explanation'', JStr (lit ''e''))] (lit ''correct_answer'') =
           Some (JStr (lit ''A''))"
    by (simp add: lit_def)
  have z: "score_of awaiting_state 7 = \<lparr>sc_correct = 0, sc_total = 0\<rparr>"
    by (simp add: score_of_def awaiting_state_def)
  from graded_answer_score_on_objects
         [of "text_from 7 (lit '' a '')" "Message (Some (lit '' a ''))" "lit '' a ''" 7
             awaiting_state _ "JStr (lit ''A'')" example_upper example_str "[]" 7 "[]",
             OF _ _ _ s k l]
  obtain sc where
    "user_scores (state (check_answer example_upper example_str (text_from 7 (lit '' a '')) awaiting_state)) 7
       = Some sc" and "sc_total sc = 1" and "sc_correct sc = 1"
    by (auto simp: text_from_def z n)
  then show ?thesis using l by simp
qed

text \<open>
  Claim C4. Every answer that normalizes to one of A, B, C, D while the user has an open
  question is to be graded, with \<open>total\<close> one higher afterwards. The code does so for a
  stored object (\<open>graded_answer_score_on_objects\<close>), but what is stored need not be one:
  the key check of \<open>generate_problem\<close> is \<open>key in data\<close>, which the JSON array of the
  four key names passes. After user 7 asked for a question and the service answered with
  that array, the array is what the sessions hold for the user; the answer A then ends
  in \<open>TypeError\<close> at \<open>data["correct_answer"]\<close>, no record is written, and the array stays
  in the sessions.
\<close>

theorem answer_to_stored_array_is_not_graded:
  "list_state =
     run example_upper example_str init_state [NewQuestion (Text list_text) (text_from 7 (lit ''/problem''))] \<and>
   normalize example_upper (lit ''A'') \<in> set letters \<and>
   user_sessions list_state 7 = Some list_item \<and>
   raised (check_answer example_upper example_str (text_from 7 (lit ''A'')) list_state) = Some TypeError \<and>
   user_scores (state (check_answer example_upper example_str (text_from 7 (lit ''A'')) list_state)) 7 = None \<and>
   user_sessions (state (check_answer example_upper example_str (text_from 7 (lit ''A'')) list_state)) 7 =
     Some list_item"
proof -
  have "list_state =
     run example_upper example_str init_state [NewQuestion (Text list_text) (text_from 7 (lit ''/problem''))]"
    by (simp add: list_state_def)
  moreover have
    "normalize example_upper (lit ''A'') \<in> set letters \<and>
     user_sessions list_state 7 = Some list_item \<and>
     raised (check_answer example_upper example_str (text_from 7 (lit ''A'')) list_state) = Some TypeError \<and>
     user_scores (state (check_answer example_upper example_str (text_from 7 (lit ''A'')) list_state)) 7 = None \<and>
     user_sessions (state (check_answer example_upper example_str (text_from 7 (lit ''A'')) list_state)) 7 =
       Some list_item"
    by (simp add: list_state_eq text_defs check_answer_def text_from_def Let_def
                  py_getitem_def list_item_def raise_with_def)
  ultimately show ?thesis by blast
qed

text \<open>
  Claim C10. The stored \<open>correct_answer\<close> is compared as it is with the normalized answer.
  When it is not a single upper-case letter, no answer that is graded equals it: the
  record gets \<open>total\<close> one higher and \<open>correct\<close> unchanged, and the reply, sent when the
  explanation is a text, is the one for a wrong answer.
\<close>

theorem unnormalized_stored_answer_never_matches:
  assumes "upd_message upd = Some m" and "msg_text m = Some t"
    and "effective_user upd = Some uid"
    and "user_sessions st uid = Some (JObj kvs)"
    and "map_of kvs (lit ''correct_answer'') = Some correct"
    and "\<not> upper_single_letter correct"
    and "normalize up t \<in> set letters"
  shows "JStr (normalize up t) \<noteq> correct \<and>
         (\<exists>sc. user_scores (state (check_answer up other upd st)) uid = Some sc \<and>
              sc_total sc = sc_total (score_of st uid) + 1 \<and>
              sc_correct sc = sc_correct (score_of st uid)) \<and>
         (\<forall>ex. map_of kvs (lit ''explanation'') = Some (JStr ex) \<longrightarrow>
              effects (check_answer up other upd st) =
                [ReplyText ([10060] @ lit '' Incorrect.'' @ [10] @ lit ''Correct answer: '' @
                            fstr other correct @ [10, 10] @ lit ''Explanation:'' @ [10] @ ex @
                            score_text (graded (score_of st uid) False))])"
proof -
  have ne: "JStr (normalize up t) \<noteq> correct"
    using assms(6,7) letters_upper by blast
  have "user_scores (state (check_answer up other upd st)) uid =
          Some (graded (score_of st uid) False)"
    using check_answer_graded [OF assms(1-5) assms(7), of other] ne by simp
  then have sc: "\<exists>sc. user_scores (state (check_answer up other upd st)) uid = Some sc \<and>
              sc_total sc = sc_total (score_of st uid) + 1 \<and>
              sc_correct sc = sc_correct (score_of st uid)"
    by (simp add: graded_total graded_correct)
  have "effects (check_answer up other upd st) =
          [ReplyText ([10060] @ lit '' Incorrect.'' @ [10] @ lit ''Correct answer: '' @
                      fstr other correct @ [10, 10] @ lit ''Explanation:'' @ [10] @ ex @
                      score_text (graded (score_of st uid) False))]"
    if "map_of kvs (lit ''explanation'') = Some (JStr ex)" for ex
    using check_answer_reply [OF assms(1-5) that assms(7), of other] ne
    by (simp add: verdict_text_def)
  with ne sc show ?thesis by blast
qed

theorem unnormalized_stored_answer_never_matches_witness:
  "\<not> upper_single_letter (JStr (lit ''b'')) \<and> normalize example_upper (lit ''b'') = lit ''B'' \<and>
   user_scores (state (check_answer example_upper example_str (text_from 7 (lit ''b'')) lowercase_state)) 7 =
     Some \<lparr>sc_correct = 0, sc_total = 1\<rparr>"
proof -
  have n: "normalize example_upper (lit ''b'') = lit ''B''" by (simp add: text_defs)
  then have l: "normalize example_upper (lit ''b'') \<in> set letters" by (simp add: letters_def)
  have u: "\<not> upper_single_letter (JStr (lit ''b''))"
    by (simp add: upper_single_letter_def lit_def)
  have s: "user_sessions lowercase_state 7 =
             Some (JObj [(lit ''question'', JStr (lit ''q'')),
               (lit ''choices'',
                  JObj [(lit ''A'', JStr (lit ''1'')), (lit ''B'', JStr (lit ''2'')),
                        (lit ''C'', JStr (lit ''3'')), (lit ''D'', JStr (lit ''4''))]),
               (lit ''correct_answer'', JStr (lit ''b'')),
               (lit ''explanation'', JStr (lit ''e''))])"
    by (simp add: lowercase_state_def lowercase_item_def)
  have k: "map_of [(lit ''question'', JStr (lit ''q'')),
               (lit ''choices'',
                  JObj [(lit ''A'', JStr (lit ''1'')), (lit ''B'', JStr (lit ''2'')),
                        (lit ''C'', JStr (lit ''3'')), (lit ''D'', JStr (lit ''4''))]),
               (lit ''correct_answer'', JStr (lit ''b'')),
               (lit ''explanation'', JStr (lit ''e''))] (lit ''correct_answer'') =
           Some (JStr (lit ''b''))"
    by (simp add: lit_def)
  have z: "score_of lowercase_state 7 = \<lparr>sc_correct = 0, sc_total = 0\<rparr>"
    by (simp add: score_of_def lowercase_state_def)
  from unnormalized_stored_answer_never_matches
         [of "text_from 7 (lit ''b'')" "Message (Some (lit ''b''))" "lit ''b''" 7
             lowercase_state _ "JStr (lit ''b'')" example_upper example_str, OF _ _ _ s k u l]
  obtain sc where
    "user_scores (state (check_answer example_upper example_str (text_from 7 (lit ''b'')) lowercase_state)) 7
       = Some sc" and "sc_total sc = 1" and "sc_correct sc = 0"
    by (auto simp: text_from_def z)
  then show ?thesis using u n by simp
qed

subsection \<open>What \<open>generate_problem\<close> returns\<close>

lemma all_keys_in_obj:
  "all_keys_in ks (JObj kvs) = Some (set ks \<subseteq> set (map fst kvs))"
  by (induction ks) (auto split: option.splits bool.splits)

lemma fallback_well_formed: "spec_well_formed fallback"
  by (simp add: spec_well_formed_def fallback_def required_keys_def letters_def lit_def)

lemma generate_problem_result:
  "generate_problem resp = fallback \<or>
   (\<exists>raw. resp = Text raw \<and> json_loads (clean_text raw) = Some (generate_problem resp) \<and>
          all_keys_in required_keys (generate_problem resp) = Some True)"
  by (auto simp: generate_problem_def split: response.splits option.splits bool.splits)

lemma generate_problem_accepts:
  assumes "json_loads (clean_text raw) = Some data"
    and "all_keys_in required_keys data = Some True"
  shows "generate_problem (Text raw) = data"
  using assms by (simp add: generate_problem_def)

lemma generate_problem_obj_keys:
  assumes "generate_problem resp = JObj kvs"
  shows "set required_keys \<subseteq> set (map fst kvs)"
proof -
  from generate_problem_result [of resp] show ?thesis
  proof
    assume "generate_problem resp = fallback"
    with assms have "JObj kvs = fallback" by simp
    then show ?thesis by (auto simp: fallback_def required_keys_def)
  next
    assume "\<exists>raw. resp = Text raw \<and>
              json_loads (clean_text raw) = Some (generate_problem resp) \<and>
              all_keys_in required_keys (generate_problem resp) = Some True"
    with assms show ?thesis by (auto simp: all_keys_in_obj)
  qed
qed

lemma unchecked_loads: "json_loads (clean_text unchecked_text) = Some unchecked_item"
  by (simp add: unchecked_text_def unchecked_item_def eval_defs)

lemma unchecked_keys: "all_keys_in required_keys unchecked_item = Some True"
  by (simp add: unchecked_item_def required_keys_def lit_def)

lemma unchecked_not_well_formed: "\<not> spec_well_formed unchecked_item"
  by (simp add: spec_well_formed_def unchecked_item_def letters_def lit_def)

lemma unchecked_not_fallback: "unchecked_item \<noteq> fallback"
  by (simp add: unchecked_item_def fallback_def lit_def)

lemma prose_loads: "json_loads (clean_text prose_text) = None"
  by (simp add: prose_text_def eval_defs)

lemma partial_loads:
  "json_loads (clean_text partial_text) = Some (JObj [(lit ''question'', JStr (lit ''q''))])"
  by (simp add: partial_text_def eval_defs)

lemma partial_keys:
  "all_keys_in required_keys (JObj [(lit ''question'', JStr (lit ''q''))]) = Some False"
  by (simp add: required_keys_def lit_def)

text \<open>
  Claim C1, as the code has it. When the call raises or the cleaned text is not JSON, the
  fallback is returned. When the cleaned text parses to a JSON object, the object is
  returned if it has the four required keys and the fallback otherwise; the labels of
  \<open>choices\<close> and the value of \<open>correct_answer\<close> are not looked at. So an object that
  \<open>generate_problem\<close> returns has the four keys, and the fallback has the full shape.
\<close>

theorem generate_problem_checks_keys_only:
  "(resp = Raises \<or> (\<exists>raw. resp = Text raw \<and> json_loads (clean_text raw) = None) \<longrightarrow>
      generate_problem resp = fallback) \<and>
   (\<forall>raw kvs. resp = Text raw \<and> json_loads (clean_text raw) = Some (JObj kvs) \<longrightarrow>
      generate_problem resp =
        (if set required_keys \<subseteq> set (map fst kvs) then JObj kvs else fallback)) \<and>
   (\<forall>kvs. generate_problem resp = JObj kvs \<longrightarrow> set required_keys \<subseteq> set (map fst kvs)) \<and>
   spec_well_formed fallback"
proof -
  have a: "resp = Raises \<or> (\<exists>raw. resp = Text raw \<and> json_loads (clean_text raw) = None) \<longrightarrow>
      generate_problem resp = fallback"
    by (auto simp: generate_problem_def)
  have b: "generate_problem resp =
        (if set required_keys \<subseteq> set (map fst kvs) then JObj kvs else fallback)"
    if "resp = Text raw \<and> json_loads (clean_text raw) = Some (JObj kvs)" for raw kvs
    using that by (simp add: generate_problem_def all_keys_in_obj)
  have c: "set required_keys \<subseteq> set (map fst kvs)" if "generate_problem resp = JObj kvs" for kvs
    using that by (rule generate_problem_obj_keys)
  from a b c fallback_well_formed show ?thesis by blast
qed

theorem generate_problem_checks_keys_only_witness:
  "json_loads (clean_text unchecked_text) = Some unchecked_item \<and>
   generate_problem (Text unchecked_text) = unchecked_item \<and>
   json_loads (clean_text prose_text) = None \<and>
   generate_problem (Text prose_text) = fallback"
  using generate_problem_checks_keys_only [of "Text unchecked_text"]
    generate_problem_checks_keys_only [of "Text prose_text"]
    unchecked_loads prose_loads
  by (simp add: unchecked_item_def required_keys_def lit_def)

text \<open>
  The claim as it is written asks for the full shape of every returned value. A response
  with the four keys, an empty \<open>choices\<close> and the answer Z is returned as it is.
\<close>

theorem generate_problem_checks_keys_only_counterexample:
  "generate_problem (Text unchecked_text) = unchecked_item \<and>
   unchecked_item \<noteq> fallback \<and>
   \<not> spec_well_formed (generate_problem (Text unchecked_text))"
  using generate_problem_accepts [OF unchecked_loads unchecked_keys]
    unchecked_not_fallback unchecked_not_well_formed
  by simp

text \<open>
  Claim C2. When the call of the service raises, when the cleaned text is not JSON, or
  when a required key is missing from the parsed value, \<open>generate_problem\<close> returns the
  same fixed item: the question "If 2x + 3 = 11, what is x?", the choices 3, 4, 5, 6 under
  A, B, C, D, the answer B and the explanation with its two arrows (code point 8594). It
  is a function of the response alone, so the item is the same on every invocation.
\<close>

theorem generation_failure_gives_fallback:
  assumes "resp = Raises \<or>
           (\<exists>raw. resp = Text raw \<and>
              (json_loads (clean_text raw) = None \<or>
               (\<exists>data. json_loads (clean_text raw) = Some data \<and>
                       all_keys_in required_keys data \<noteq> Some True)))"
  shows "generate_problem resp =
           JObj [(lit ''question'', JStr (lit ''If 2x + 3 = 11, what is x?'')),
                 (lit ''choices'',
                    JObj [(lit ''A'', JStr (lit ''3'')), (lit ''B'', JStr (lit ''4'')),
                          (lit ''C'', JStr (lit ''5'')), (lit ''D'', JStr (lit ''6''))]),
                 (lit ''correct_answer'', JStr (lit ''B'')),
                 (lit ''explanation'',
                    JStr (lit ''2x + 3 = 11 '' @ [8594] @ lit '' 2x = 8 '' @ [8594] @
                          lit '' x = 4''))]"
proof -
  from assms have "generate_problem resp = fallback"
    by (auto simp: generate_problem_def split: response.splits option.splits bool.splits)
  then show ?thesis by (simp add: fallback_def)
qed

theorem generation_failure_gives_fallback_witness:
  "generate_problem Raises = fallback \<and>
   json_loads (clean_text prose_text) = None \<and>
   generate_problem (Text prose_text) = fallback \<and>
   all_keys_in required_keys (JObj [(lit ''question'', JStr (lit ''q''))]) = Some False \<and>
   generate_problem (Text partial_text) = fallback"
  using generation_failure_gives_fallback [of Raises]
    generation_failure_gives_fallback [of "Text prose_text"]
    generation_failure_gives_fallback [of "Text partial_text"]
    prose_loads partial_loads partial_keys
  by (simp add: fallback_def)

subsection \<open>Stripping and replacing\<close>

lemma py_strip_Nil: "py_strip [] = []"
  by (simp add: py_strip_def)

lemma rev_dropWhile_rev_prefix: "\<exists>u. d = rev (dropWhile P (rev d)) @ u"
proof -
  have "rev (takeWhile P (rev d) @ dropWhile P (rev d)) = d"
    by (simp only: takeWhile_dropWhile_id rev_rev_ident)
  then have "d = rev (dropWhile P (rev d)) @ rev (takeWhile P (rev d))"
    by (simp only: rev_append)
  then show ?thesis by blast
qed

lemma py_strip_fixed:
  assumes "s \<noteq> []" and "\<not> py_isspace (hd s)" and "\<not> py_isspace (last s)"
  shows "py_strip s = s"
proof -
  from assms have "dropWhile py_isspace s = s" by (cases s) simp_all
  moreover from assms have "dropWhile py_isspace (rev s) = rev s"
    by (cases "rev s") (simp_all add: last_rev hd_rev)
  ultimately show ?thesis by (simp add: py_strip_def)
qed

lemma py_strip_idem: "py_strip (py_strip s) = py_strip s"
proof (cases "py_strip s = []")
  case True
  then show ?thesis by (simp add: py_strip_Nil)
next
  case False
  define d where "d = dropWhile py_isspace s"
  define t where "t = py_strip s"
  have t: "t = rev (dropWhile py_isspace (rev d))" by (simp add: t_def d_def py_strip_def)
  from False have tne: "t \<noteq> []" by (simp add: t_def)
  obtain u where du: "d = t @ u" using rev_dropWhile_rev_prefix [of d py_isspace] t by blast
  with tne have "d \<noteq> []" by simp
  then have "\<not> py_isspace (hd d)" unfolding d_def by (rule hd_dropWhile)
  with du tne have h: "\<not> py_isspace (hd t)" by simp
  have "rev t = dropWhile py_isspace (rev d)" by (simp add: t)
  moreover from tne have "rev t \<noteq> []" by simp
  ultimately have "\<not> py_isspace (hd (rev t))" by (metis hd_dropWhile)
  then have l: "\<not> py_isspace (last t)" using tne by (simp add: hd_rev)
  from tne h l have "py_strip t = t" by (rule py_strip_fixed)
  then show ?thesis by (simp add: t_def)
qed

lemma set_py_strip: "set (py_strip s) \<subseteq> set s"
proof -
  have "set (py_strip s) = set (dropWhile py_isspace (rev (dropWhile py_isspace s)))"
    by (simp add: py_strip_def)
  also have "\<dots> \<subseteq> set (rev (dropWhile py_isspace s))" by (rule set_dropWhileD [THEN subsetI])
  also have "\<dots> \<subseteq> set s" using set_dropWhileD by fastforce
  finally show ?thesis .
qed

lemma replace_from_skip:
  assumes "old \<noteq> []" and "hd old \<notin> set p"
  shows "replace_from old new (p @ r) = p @ replace_from old new r"
  using assms
proof (induction p)
  case Nil
  show ?case by simp
next
  case (Cons c p)
  have "take (length old) (c # p @ r) \<noteq> old"
  proof
    assume "take (length old) (c # p @ r) = old"
    then have "hd old = c" using Cons.prems(1) by (cases old) auto
    with Cons.prems(2) show False by simp
  qed
  with Cons show ?case by simp
qed

lemma replace_from_absent:
  assumes "old \<noteq> []" and "hd old \<notin> set p"
  shows "replace_from old new p = p"
  using replace_from_skip [OF assms, of new "[]"] by simp

lemma py_strip_fenced: "py_strip (fenced tag p) = fenced tag p"
  by (rule py_strip_fixed) (simp_all add: fenced_def lit_def py_isspace_def)

lemma replace_json_fence_tail:
  "replace_from (lit ''```json'') [] (lit ''```'') = lit ''```''"
  by (simp add: lit_def)

lemma replace_fence_tail: "replace_from (lit ''```'') [] (lit ''```'') = []"
  by (simp add: lit_def)

lemma replace_json_tagged:
  assumes "96 \<notin> set p"
  shows "replace_from (lit ''```json'') [] (fenced (lit ''json'') p) = p @ lit ''```''"
proof -
  have "replace_from (lit ''```json'') [] (fenced (lit ''json'') p)
          = replace_from (lit ''```json'') [] (p @ lit ''```'')"
    by (simp add: fenced_def lit_def)
  also have "\<dots> = p @ replace_from (lit ''```json'') [] (lit ''```'')"
    using assms by (intro replace_from_skip) (simp_all add: lit_def)
  finally show ?thesis by (simp add: replace_json_fence_tail)
qed

lemma replace_json_bare:
  assumes "96 \<notin> set p" and "take 1 p \<noteq> lit ''j''"
  shows "replace_from (lit ''```json'') [] (fenced [] p) = fenced [] p"
proof (cases p)
  case Nil
  then show ?thesis by (simp add: fenced_def lit_def)
next
  case (Cons c p')
  with assms have c: "c \<noteq> 96" "c \<noteq> 106" and p': "96 \<notin> set p'"
    by (auto simp: lit_def)
  have "replace_from (lit ''```json'') [] ((c # p') @ lit ''```'')
          = (c # p') @ replace_from (lit ''```json'') [] (lit ''```'')"
    using c p' by (intro replace_from_skip) (simp_all add: lit_def)
  then have tail:
    "replace_from (lit ''```json'') [] (c # p' @ lit ''```'') = c # p' @ lit ''```''"
    by (simp add: replace_json_fence_tail)
  show ?thesis
    using c tail by (simp add: Cons fenced_def lit_def)
qed

lemma replace_fence_open:
  assumes "96 \<notin> set p"
  shows "replace_from (lit ''```'') [] (p @ lit ''```'') = p"
proof -
  have "replace_from (lit ''```'') [] (p @ lit ''```'')
          = p @ replace_from (lit ''```'') [] (lit ''```'')"
    using assms by (intro replace_from_skip) (simp_all add: lit_def)
  then show ?thesis by (simp add: replace_fence_tail)
qed

lemma replace_fence_fenced:
  assumes "96 \<notin> set p"
  shows "replace_from (lit ''```'') [] (fenced [] p) = p"
proof -
  have "replace_from (lit ''```'') [] (fenced [] p)
          = replace_from (lit ''```'') [] (p @ lit ''```'')"
    by (simp add: fenced_def lit_def)
  then show ?thesis using assms by (simp add: replace_fence_open)
qed

lemma fences_nonempty: "lit ''```json'' \<noteq> []" "lit ''```'' \<noteq> []"
  by (simp_all add: lit_def)

lemma clean_text_plain:
  assumes "96 \<notin> set p"
  shows "clean_text p = py_strip p"
proof -
  from assms set_py_strip [of p] have n: "96 \<notin> set (py_strip p)" by blast
  have "replace_from (lit ''```json'') [] (py_strip p) = py_strip p"
    using n by (intro replace_from_absent) (simp_all add: lit_def)
  moreover have "replace_from (lit ''```'') [] (py_strip p) = py_strip p"
    using n by (intro replace_from_absent) (simp_all add: lit_def)
  ultimately show ?thesis
    by (simp add: clean_text_def py_replace_def fences_nonempty py_strip_idem)
qed

lemma clean_text_fenced:
  assumes "py_strip raw = fenced tag p" and "96 \<notin> set p"
    and "tag = lit ''json'' \<or> (tag = [] \<and> take 1 p \<noteq> lit ''j'')"
  shows "clean_text raw = py_strip p"
proof -
  from assms(3) show ?thesis
  proof
    assume tag: "tag = lit ''json''"
    show ?thesis
      using assms(1,2)
      by (simp add: clean_text_def py_replace_def fences_nonempty tag
                    replace_json_tagged replace_fence_open)
  next
    assume "tag = [] \<and> take 1 p \<noteq> lit ''j''"
    then have tag: "tag = []" and j: "take 1 p \<noteq> lit ''j''" by simp_all
    show ?thesis
      using assms(1,2) j
      by (simp add: clean_text_def py_replace_def fences_nonempty tag
                    replace_json_bare replace_fence_fenced)
  qed
qed

lemma generate_problem_clean:
  assumes "clean_text raw = clean_text raw'"
  shows "generate_problem (Text raw) = generate_problem (Text raw')"
  using assms by (simp add: generate_problem_def)

lemma sample_lines_parsed:
  "generate_problem (Text ([10] @ sample_text @ [10])) = sample_item"
  by (simp add: sample_text_def sample_item_def eval_defs)

lemma sample_python_fenced:
  "generate_problem (Text (fenced (lit ''python'') ([10] @ sample_text @ [10]))) = fallback"
  by (simp add: sample_text_def fenced_def eval_defs)

lemma sample_not_fallback: "sample_item \<noteq> fallback"
  by (simp add: sample_item_def fallback_def lit_def)

lemma sample_well_formed: "spec_well_formed sample_item"
  by (simp add: spec_well_formed_def sample_item_def required_keys_def letters_def lit_def)

lemma sample_no_backquote: "96 \<notin> set ([10] @ sample_text @ [10])"
  by (simp add: sample_text_def lit_def)

text \<open>
  Claim C7, as the code has it. Before parsing, \<open>generate_problem\<close> strips the text and
  removes every occurrence of three backquotes followed by \<open>json\<close>, then every remaining
  occurrence of three backquotes. So for a payload without backquotes that is wrapped in
  a fence with the tag \<open>json\<close> or with no tag, the cleaned text is the stripped payload and
  the result is the one for the bare payload: the parsed item when the payload is JSON
  with the four keys. No other tag is removed.
\<close>

theorem json_fence_removed_before_parsing:
  assumes "py_strip raw = fenced tag p" and "96 \<notin> set p"
    and "tag = lit ''json'' \<or> (tag = [] \<and> take 1 p \<noteq> lit ''j'')"
  shows "clean_text raw = py_strip p \<and>
         generate_problem (Text raw) = generate_problem (Text p) \<and>
         (\<forall>data. json_loads (py_strip p) = Some data \<and>
                 all_keys_in required_keys data = Some True \<longrightarrow>
                 generate_problem (Text raw) = data)"
proof -
  have c: "clean_text raw = py_strip p"
    using assms by (rule clean_text_fenced)
  moreover have "clean_text p = py_strip p"
    using assms(2) by (rule clean_text_plain)
  ultimately have "generate_problem (Text raw) = generate_problem (Text p)"
    by (simp add: generate_problem_clean)
  moreover have "generate_problem (Text raw) = data"
    if "json_loads (py_strip p) = Some data \<and> all_keys_in required_keys data = Some True"
    for data
    using that c by (simp add: generate_problem_def)
  ultimately show ?thesis using c by blast
qed

theorem json_fence_removed_before_parsing_witness:
  "py_strip (fenced (lit ''json'') ([10] @ sample_text @ [10])) =
     fenced (lit ''json'') ([10] @ sample_text @ [10]) \<and>
   96 \<notin> set ([10] @ sample_text @ [10]) \<and>
   generate_problem (Text (fenced (lit ''json'') ([10] @ sample_text @ [10]))) = sample_item"
  using json_fence_removed_before_parsing
          [OF py_strip_fenced sample_no_backquote, of "lit ''json''"]
    py_strip_fenced [of "lit ''json''" "[10] @ sample_text @ [10]"]
    sample_no_backquote sample_lines_parsed
  by simp

text \<open>
  The claim as it is written covers every language tag. With the tag \<open>python\<close> the word
  stays in front of the payload, the text is not JSON, and the fallback is returned
  although the payload alone parses to a well-formed item.
\<close>

theorem json_fence_removed_before_parsing_counterexample:
  "generate_problem (Text ([10] @ sample_text @ [10])) = sample_item \<and>
   spec_well_formed sample_item \<and> sample_item \<noteq> fallback \<and>
   generate_problem (Text (fenced (lit ''python'') ([10] @ sample_text @ [10]))) = fallback"
  using sample_lines_parsed sample_well_formed sample_not_fallback sample_python_fenced
  by simp

subsection \<open>The question reply\<close>

lemma shuffled_parsed: "generate_problem (Text shuffled_text) = shuffled_item"
  by (simp add: shuffled_text_def shuffled_item_def eval_defs)

lemma shuffled_well_formed: "spec_well_formed shuffled_item"
  by (auto simp: spec_well_formed_def shuffled_item_def required_keys_def letters_def lit_def)

lemma choice_line_text: "choice_line other (l, JStr t) = l @ lit '') '' @ t @ [10]"
  by (simp add: choice_line_def fstr_def)

lemma choice_lines_text:
  "concat (map (choice_line other \<circ> (\<lambda>(l, t). (l, JStr t))) cts) =
   concat (map (\<lambda>(l, t). l @ lit '') '' @ t @ [10]) cts)"
  by (induction cts) (auto simp: choice_line_text)

lemma format_question_texts:
  assumes "map_of kvs (lit ''question'') = Some (JStr q)"
    and "map_of kvs (lit ''choices'') = Some (JObj (map (\<lambda>(l, t). (l, JStr t)) cts))"
  shows "format_question other (JObj kvs) =
           Inr (q @ [10, 10] @ concat (map (\<lambda>(l, t). l @ lit '') '' @ t @ [10]) cts) @
                [10, 128221] @ lit '' Reply with A, B, C, or D.'')"
  using assms
  by (simp add: format_question_def py_getitem_def fstr_def choice_lines_text
                instruction_text_def)

lemma problem_reply:
  assumes "upd_message upd = Some m" and "effective_user upd = Some uid"
    and "user_sessions st uid = None"
    and "format_question other (generate_problem resp) = Inr formatted"
  shows "effects (problem other resp upd st) = [SendTyping, CallGenerate, ReplyText formatted]"
  using assms by (simp add: problem_def Let_def done_with_def dom_def)

text \<open>
  Claim C6, as the code has it. For an item whose question and choice texts are strings,
  the reply is the question, a blank line, one line \<open>label) text\<close> for every choice in
  the order in which the item lists its choices, a blank line and the line that asks for
  A, B, C, or D. The order is A, B, C, D when the item lists them so, as the prompt and
  the fallback do. This text is the reply of \<open>problem\<close> to a user without an open question.
\<close>

theorem question_reply_layout:
  assumes "map_of kvs (lit ''question'') = Some (JStr q)"
    and "map_of kvs (lit ''choices'') = Some (JObj (map (\<lambda>(l, t). (l, JStr t)) cts))"
  shows "format_question other (JObj kvs) =
           Inr (q @ [10, 10] @ concat (map (\<lambda>(l, t). l @ lit '') '' @ t @ [10]) cts) @
                [10, 128221] @ lit '' Reply with A, B, C, or D.'') \<and>
         (cts = [(lit ''A'', a), (lit ''B'', b), (lit ''C'', c), (lit ''D'', d)] \<longrightarrow>
            format_question other (JObj kvs) = Inr (label_order_text q a b c d)) \<and>
         (upd_message upd = Some m \<and> effective_user upd = Some uid \<and>
          user_sessions st uid = None \<and> generate_problem resp = JObj kvs \<longrightarrow>
            effects (problem other resp upd st) =
              [SendTyping, CallGenerate,
               ReplyText (q @ [10, 10] @
                          concat (map (\<lambda>(l, t). l @ lit '') '' @ t @ [10]) cts) @
                          [10, 128221] @ lit '' Reply with A, B, C, or D.'')])"
proof -
  have f: "format_question other (JObj kvs) =
           Inr (q @ [10, 10] @ concat (map (\<lambda>(l, t). l @ lit '') '' @ t @ [10]) cts) @
                [10, 128221] @ lit '' Reply with A, B, C, or D.'')"
    using assms by (rule format_question_texts)
  have g: "format_question other (JObj kvs) = Inr (label_order_text q a b c d)"
    if "cts = [(lit ''A'', a), (lit ''B'', b), (lit ''C'', c), (lit ''D'', d)]"
    using f that by (simp add: label_order_text_def lit_def)
  have h: "effects (problem other resp upd st) =
              [SendTyping, CallGenerate,
               ReplyText (q @ [10, 10] @
                          concat (map (\<lambda>(l, t). l @ lit '') '' @ t @ [10]) cts) @
                          [10, 128221] @ lit '' Reply with A, B, C, or D.'')]"
    if "upd_message upd = Some m \<and> effective_user upd = Some uid \<and>
        user_sessions st uid = None \<and> generate_problem resp = JObj kvs"
    using that f problem_reply [of upd m uid st other resp] by simp
  from f g h show ?thesis by blast
qed

theorem question_reply_layout_witness:
  "generate_problem Raises = fallback \<and>
   format_question example_str fallback =
     Inr (label_order_text (lit ''If 2x + 3 = 11, what is x?'')
            (lit ''3'') (lit ''4'') (lit ''5'') (lit ''6'')) \<and>
   effects (problem example_str Raises (text_from 7 (lit ''/problem'')) init_state) =
     [SendTyping, CallGenerate,
      ReplyText (label_order_text (lit ''If 2x + 3 = 11, what is x?'')
                   (lit ''3'') (lit ''4'') (lit ''5'') (lit ''6''))]"
proof -
  define kvs where "kvs =
     [(lit ''question'', JStr (lit ''If 2x + 3 = 11, what is x?'')),
      (lit ''choices'',
         JObj [(lit ''A'', JStr (lit ''3'')), (lit ''B'', JStr (lit ''4'')),
               (lit ''C'', JStr (lit ''5'')), (lit ''D'', JStr (lit ''6''))]),
      (lit ''correct_answer'', JStr (lit ''B'')),
      (lit ''explanation'',
         JStr (lit ''2x + 3 = 11 '' @ [8594] @ lit '' 2x = 8 '' @ [8594] @ lit '' x = 4''))]"
  define cts where "cts =
     [(lit ''A'', lit ''3''), (lit ''B'', lit ''4''), (lit ''C'', lit ''5''),
      (lit ''D'', lit ''6'')]"
  have fb: "fallback = JObj kvs" by (simp add: fallback_def kvs_def)
  have gp: "generate_problem Raises = JObj kvs" by (simp add: generate_problem_def fb)
  have q: "map_of kvs (lit ''question'') = Some (JStr (lit ''If 2x + 3 = 11, what is x?''))"
    by (simp add: kvs_def lit_def)
  have ch: "map_of kvs (lit ''choices'') = Some (JObj (map (\<lambda>(l, t). (l, JStr t)) cts))"
    by (simp add: kvs_def cts_def lit_def)
  have u: "upd_message (text_from 7 (lit ''/problem'')) = Some (Message (Some (lit ''/problem'')))"
      "effective_user (text_from 7 (lit ''/problem'')) = Some 7"
    by (simp_all add: text_from_def)
  have i: "user_sessions init_state 7 = None" by (simp add: init_state_def)
  note th = question_reply_layout
              [OF q ch, of example_str "lit ''3''" "lit ''4''" "lit ''5''" "lit ''6''"
                  "text_from 7 (lit ''/problem'')" "Message (Some (lit ''/problem''))" 7
                  init_state Raises]
  have f: "format_question example_str (JObj kvs) =
             Inr (label_order_text (lit ''If 2x + 3 = 11, what is x?'')
                    (lit ''3'') (lit ''4'') (lit ''5'') (lit ''6''))"
    using th [THEN conjunct2, THEN conjunct1] by (simp add: cts_def)
  have e: "effects (problem example_str Raises (text_from 7 (lit ''/problem'')) init_state) =
             [SendTyping, CallGenerate,
              ReplyText (label_order_text (lit ''If 2x + 3 = 11, what is x?'')
                           (lit ''3'') (lit ''4'') (lit ''5'') (lit ''6''))]"
    using th [THEN conjunct2, THEN conjunct2] u i gp
    by (simp add: cts_def label_order_text_def lit_def)
  from gp f e fb show ?thesis by simp
qed

text \<open>
  The claim as it is written asks for the label order A, B, C, D for every item. An item
  of the full shape whose choices are listed as B, A, C, D is shown with B first.
\<close>

theorem question_reply_layout_counterexample:
  "generate_problem (Text shuffled_text) = shuffled_item \<and>
   spec_well_formed shuffled_item \<and>
   format_question example_str shuffled_item =
     Inr (lit ''q'' @ [10, 10] @
          lit ''B) 2'' @ [10] @ lit ''A) 1'' @ [10] @ lit ''C) 3'' @ [10] @ lit ''D) 4'' @ [10] @
          [10, 128221] @ lit '' Reply with A, B, C, or D.'') \<and>
   format_question example_str shuffled_item \<noteq>
     Inr (label_order_text (lit ''q'') (lit ''1'') (lit ''2'') (lit ''3'') (lit ''4''))"
proof -
  have f: "format_question example_str shuffled_item =
     Inr (lit ''q'' @ [10, 10] @
          lit ''B) 2'' @ [10] @ lit ''A) 1'' @ [10] @ lit ''C) 3'' @ [10] @ lit ''D) 4'' @ [10] @
          [10, 128221] @ lit '' Reply with A, B, C, or D.'')"
    by (simp add: format_question_def py_getitem_def shuffled_item_def fstr_def
                  choice_line_def instruction_text_def lit_def)
  then have "format_question example_str shuffled_item \<noteq>
     Inr (label_order_text (lit ''q'') (lit ''1'') (lit ''2'') (lit ''3'') (lit ''4''))"
    by (simp add: label_order_text_def lit_def)
  with f shuffled_parsed shuffled_well_formed show ?thesis by simp
qed

end
